theory Spec2Isabelle
  imports
    Main
    "HOL-Library.Sublist"
    "HOL-Library.AList"
    "HOL-Library.Char_ord"
    "HOL-Library.List_Lexorder"
begin

section \<open>Strings, files and directories\<close>

text \<open>
  A Go \<^verbatim>\<open>string\<close> and a \<^verbatim>\<open>[]byte\<close> are byte sequences: \<^typ>\<open>string\<close>, with
  \<^const>\<open>length\<close> the Go \<^verbatim>\<open>len\<close>. The order on strings (\<^verbatim>\<open>sort.Strings\<close>,
  the order of \<^verbatim>\<open>os.ReadDir\<close>) is the bytewise lexicographic one.
\<close>

type_synonym bytes = string

text \<open>
  \<^verbatim>\<open>strings.ReplaceAll(s, old, new)\<close>: the non-overlapping occurrences of \<^verbatim>\<open>old\<close>,
  found from the left, are replaced. The program only calls it with a non-empty
  \<^verbatim>\<open>old\<close>; for an empty one (where Go inserts \<^verbatim>\<open>new\<close> around every rune) the model
  returns \<^verbatim>\<open>s\<close>.
\<close>

function ReplaceAll :: "string \<Rightarrow> string \<Rightarrow> string \<Rightarrow> string" where
  "ReplaceAll s old new =
     (if old = [] then s
      else (case s of
              [] \<Rightarrow> []
            | c # cs \<Rightarrow>
                if prefix old s then new @ ReplaceAll (drop (length old) s) old new
                else c # ReplaceAll cs old new))"
  by pat_completeness auto
termination
  by (relation "measure (\<lambda>(s, old, new). length s)") (auto simp: neq_Nil_conv)

declare ReplaceAll.simps [simp del]

text \<open>
  A directory that holds plain files only: file name and content, one entry per name.
  A write to a name the directory can hold succeeds, a read fails exactly when the file
  is absent; faults of the operating system (a full disk, permissions) are outside the
  model. \<open>validName\<close> accepts the names that a directory can hold.
\<close>

type_synonym dir = "(string \<times> bytes) list"

definition validName :: "string \<Rightarrow> bool" where
  "validName name \<longleftrightarrow>
     name \<noteq> [] \<and> name \<noteq> ''.'' \<and> name \<noteq> ''..'' \<and> length name \<le> 255 \<and>
     CHR ''/'' \<notin> set name \<and> CHR 0x00 \<notin> set name"

datatype error =
    PathError string
  | NotExist string
  | RefNotFound string
  | DecodeCID string
  | ReadObject bytes
  | Unmarshal string
  | NodeDeleted string
  | UpdateDeleted string

definition WriteFile :: "dir \<Rightarrow> string \<Rightarrow> bytes \<Rightarrow> error + dir" where
  "WriteFile d name data =
     (if validName name then Inr (AList.update name data d) else Inl (PathError name))"

definition ReadFile :: "dir \<Rightarrow> string \<Rightarrow> error + bytes" where
  "ReadFile d name = (case map_of d name of None \<Rightarrow> Inl (NotExist name) | Some data \<Rightarrow> Inr data)"

definition Stat :: "dir \<Rightarrow> string \<Rightarrow> bool" where
  "Stat d name \<longleftrightarrow> map_of d name \<noteq> None"

definition Remove :: "dir \<Rightarrow> string \<Rightarrow> error + dir" where
  "Remove d name =
     (if Stat d name then Inr (AList.delete name d) else Inl (NotExist name))"

text \<open>\<^verbatim>\<open>os.ReadDir\<close>: the names of the entries, sorted by file name.\<close>

definition ReadDir :: "dir \<Rightarrow> string list" where
  "ReadDir d = sort (map fst d)"

text \<open>
  \<^verbatim>\<open>SafeWrite\<close> (safefile.go): the temporary file, the fsync and the rename leave the
  target holding the data, or nothing changed.
\<close>

definition SafeWrite :: "dir \<Rightarrow> string \<Rightarrow> bytes \<Rightarrow> error + dir" where
  "SafeWrite d name data = WriteFile d name data"

text \<open>
  \<^verbatim>\<open>filepath.Join(dir, name)\<close> cleans the path it builds: the elements of \<^verbatim>\<open>name\<close>
  are those between the slashes; an empty element and \<^verbatim>\<open>.\<close> are dropped, and
  \<^verbatim>\<open>..\<close> removes the element before it, or climbs by one directory where there is
  none. \<open>clean\<close> keeps the number of directories climbed and the elements below,
  the last one first. The result is the directory itself or one above it (\<open>Dir\<close>),
  a file of the directory, a path below an entry of the directory (the directory holds
  plain files only, so there is nothing there), or a path that has left the directory.
\<close>

fun elements :: "string \<Rightarrow> string list" where
  "elements [] = [[]]"
| "elements (c # cs) =
     (if c = CHR ''/'' then [] # elements cs
      else (case elements cs of [] \<Rightarrow> [[c]] | e # es \<Rightarrow> (c # e) # es))"

fun clean :: "string list \<Rightarrow> nat \<times> string list \<Rightarrow> nat \<times> string list" where
  "clean [] st = st"
| "clean (e # es) (up, below) =
     (if e = [] \<or> e = ''.'' then clean es (up, below)
      else if e = ''..'' then
        (case below of [] \<Rightarrow> clean es (Suc up, []) | b # bs \<Rightarrow> clean es (up, bs))
      else clean es (up, e # below))"

datatype target = Dir | File string | Below | Outside

definition Join :: "string \<Rightarrow> target" where
  "Join name =
     (case clean (elements name) (0, []) of
        (up, below) \<Rightarrow>
          if below = [] then Dir
          else if 0 < up then Outside
          else (case below of [n] \<Rightarrow> File n | _ \<Rightarrow> Below))"

text \<open>
  The file operations on a joined path. On the directory itself, or one above it, a
  write and a read fail and \<^verbatim>\<open>os.Stat\<close> succeeds; below an entry every operation
  fails, there being no subdirectory. A path that has left the directory is not
  followed: what it names (a file elsewhere, such as \<^verbatim>\<open>HEAD\<close> beside the ref
  directory, or a file reached by coming back) is not held by the model, which answers
  with failure; the theorems about IDs assume that the path of the ID is a file of the
  directory. \<^verbatim>\<open>os.Remove\<close> of the directory itself (which the system grants when the
  directory is empty) is answered with failure too.
\<close>

definition WritePath :: "dir \<Rightarrow> string \<Rightarrow> bytes \<Rightarrow> error + dir" where
  "WritePath d path data =
     (case Join path of File n \<Rightarrow> WriteFile d n data | _ \<Rightarrow> Inl (PathError path))"

definition ReadPath :: "dir \<Rightarrow> string \<Rightarrow> error + bytes" where
  "ReadPath d path =
     (case Join path of File n \<Rightarrow> ReadFile d n | _ \<Rightarrow> Inl (PathError path))"

definition StatPath :: "dir \<Rightarrow> string \<Rightarrow> bool" where
  "StatPath d path =
     (case Join path of File n \<Rightarrow> Stat d n | Dir \<Rightarrow> True | _ \<Rightarrow> False)"

definition RemovePath :: "dir \<Rightarrow> string \<Rightarrow> error + dir" where
  "RemovePath d path =
     (case Join path of File n \<Rightarrow> Remove d n | _ \<Rightarrow> Inl (PathError path))"

section \<open>JSON values and the standard encoder\<close>

text \<open>
  The value that \<^verbatim>\<open>json.Unmarshal\<close> builds in an \<^verbatim>\<open>interface{}\<close>. A Go map is an
  association list with one entry per key. Numbers are the integers (the program
  itself only produces integers; a fractional number in user metadata is outside the
  model).
\<close>

datatype json =
    JNull
  | JBool bool
  | JNumber int
  | JString string
  | JArray "json list"
  | JObject "(string \<times> json) list"

type_synonym cid = bytes
type_synonym time = int

text \<open>
  UTF-8 as Go's \<^verbatim>\<open>utf8.DecodeRune\<close> accepts it: \<open>utf8Size s\<close> is the number of
  bytes of the well-formed sequence at the head of \<open>s\<close>, and 0 when there is none.
\<close>

definition cont :: "char \<Rightarrow> bool" where
  "cont c \<longleftrightarrow> 0x80 \<le> (of_char c :: nat) \<and> (of_char c :: nat) \<le> 0xBF"

definition inRange :: "nat \<Rightarrow> nat \<Rightarrow> char \<Rightarrow> bool" where
  "inRange lo hi c \<longleftrightarrow> lo \<le> (of_char c :: nat) \<and> (of_char c :: nat) \<le> hi"

fun utf8Size :: "bytes \<Rightarrow> nat" where
  "utf8Size [] = 0"
| "utf8Size (b # bs) =
     (let n = (of_char b :: nat) in
      if n < 0x80 then 1
      else if 0xC2 \<le> n \<and> n \<le> 0xDF then
        (case bs of c1 # _ \<Rightarrow> if cont c1 then 2 else 0 | _ \<Rightarrow> 0)
      else if 0xE0 \<le> n \<and> n \<le> 0xEF then
        (case bs of
           c1 # c2 # _ \<Rightarrow>
             if inRange (if n = 0xE0 then 0xA0 else 0x80) (if n = 0xED then 0x9F else 0xBF) c1
                \<and> cont c2
             then 3 else 0
         | _ \<Rightarrow> 0)
      else if 0xF0 \<le> n \<and> n \<le> 0xF4 then
        (case bs of
           c1 # c2 # c3 # _ \<Rightarrow>
             if inRange (if n = 0xF0 then 0x90 else 0x80) (if n = 0xF4 then 0x8F else 0xBF) c1
                \<and> cont c2 \<and> cont c3
             then 4 else 0
         | _ \<Rightarrow> 0)
      else 0)"

definition hexDigit :: "nat \<Rightarrow> char" where
  "hexDigit n = ''0123456789abcdef'' ! (n mod 16)"

text \<open>
  \<^verbatim>\<open>json.Marshal\<close> of a byte below 0x80 inside a string (HTML escaping is on): the
  quote and the backslash get a backslash, the control characters their short or
  \<^verbatim>\<open>\u00XX\<close> form, and so do \<^verbatim>\<open><\<close>, \<^verbatim>\<open>>\<close> and \<^verbatim>\<open>&\<close>.
\<close>

definition escapeASCII :: "char \<Rightarrow> bytes" where
  "escapeASCII b =
     (let n = (of_char b :: nat) in
      if b = CHR 0x5C \<or> b = CHR 0x22 then [CHR 0x5C, b]
      else if n = 0x08 then [CHR 0x5C, CHR ''b'']
      else if n = 0x0C then [CHR 0x5C, CHR ''f'']
      else if n = 0x0A then [CHR 0x5C, CHR ''n'']
      else if n = 0x0D then [CHR 0x5C, CHR ''r'']
      else if n = 0x09 then [CHR 0x5C, CHR ''t'']
      else if n < 0x20 \<or> b = CHR ''<'' \<or> b = CHR ''>'' \<or> b = CHR ''&'' then
        [CHR 0x5C, CHR ''u'', CHR ''0'', CHR ''0'', hexDigit (n div 16), hexDigit n]
      else [b])"

text \<open>
  The body of a string as \<^verbatim>\<open>json.Marshal\<close> writes it: an ill-formed byte becomes the
  escape \<^verbatim>\<open>\ufffd\<close>, U+2028 and U+2029 are escaped, other well-formed sequences are
  copied.
\<close>

function appendString :: "bytes \<Rightarrow> bytes" where
  "appendString [] = []"
| "appendString (b # bs) =
     (if (of_char b :: nat) < 0x80 then escapeASCII b @ appendString bs
      else if utf8Size (b # bs) = 0 then
        [CHR 0x5C, CHR ''u'', CHR ''f'', CHR ''f'', CHR ''f'', CHR ''d''] @ appendString bs
      else if take 3 (b # bs) = [CHR 0xE2, CHR 0x80, CHR 0xA8] then
        [CHR 0x5C, CHR ''u'', CHR ''2'', CHR ''0'', CHR ''2'', CHR ''8''] @ appendString (drop 2 bs)
      else if take 3 (b # bs) = [CHR 0xE2, CHR 0x80, CHR 0xA9] then
        [CHR 0x5C, CHR ''u'', CHR ''2'', CHR ''0'', CHR ''2'', CHR ''9''] @ appendString (drop 2 bs)
      else take (utf8Size (b # bs)) (b # bs) @ appendString (drop (utf8Size (b # bs) - 1) bs))"
  by pat_completeness auto
termination
  by (relation "measure length") auto

definition marshalString :: "bytes \<Rightarrow> bytes" where
  "marshalString s = [CHR 0x22] @ appendString s @ [CHR 0x22]"

text \<open>
  What \<^verbatim>\<open>json.Unmarshal\<close> reads back from a marshalled string: the string with every
  ill-formed byte replaced by U+FFFD (the bytes EF BF BD).
\<close>

function toValidUTF8 :: "bytes \<Rightarrow> bytes" where
  "toValidUTF8 [] = []"
| "toValidUTF8 (b # bs) =
     (if utf8Size (b # bs) = 0 then [CHR 0xEF, CHR 0xBF, CHR 0xBD] @ toValidUTF8 bs
      else take (utf8Size (b # bs)) (b # bs) @ toValidUTF8 (drop (utf8Size (b # bs) - 1) bs))"
  by pat_completeness auto
termination
  by (relation "measure length") auto

text \<open>Decimal digits of a non-negative integer, and of an integer (\<^verbatim>\<open>strconv\<close>).\<close>

function digits :: "int \<Rightarrow> string" where
  "digits n =
     (if n < 10 then [hexDigit (nat n)]
      else digits (n div 10) @ [hexDigit (nat (n mod 10))])"
  by pat_completeness auto
termination
  by (relation "measure nat") auto

declare digits.simps [simp del]

definition decimal :: "int \<Rightarrow> string" where
  "decimal i = (if i < 0 then CHR ''-'' # digits (- i) else digits i)"

section \<open>Data model\<close>

text \<open>
  The structs of the repository. Field names are those of the source; where two structs
  share a field name the later one carries a prefix. A \<^verbatim>\<open>nil\<close> slice or map is
  \<open>None\<close>. A \<^verbatim>\<open>time.Time\<close> is the number of nanoseconds since the zero time.
\<close>

record NodeEnvelope =
  V :: int
  ID :: string
  Type :: string
  Content :: "bytes option"
  Meta :: "(string \<times> json) list option"
  Created :: time
  Modified :: time
  Prev :: string
  Deleted :: bool

record LinkEntry =
  Source :: string
  Target :: string
  linkType :: string

text \<open>\<^verbatim>\<open>CommitObject\<close> (unnamed/part_000): six fields.\<close>

record CommitObject =
  commitV :: int
  Parent :: string
  Timestamp :: time
  commitRefs :: "(string \<times> string) list"
  commitLinks :: "LinkEntry list"
  Message :: string

record Post =
  postV :: int
  postType :: string
  postContent :: string
  Author :: string
  postRefs :: "string list option"
  Tags :: "string list option"
  postTimestamp :: string
  Signature :: string

section \<open>Tokenization (unnamed/part_003)\<close>

type_synonym rune = nat

text \<open>
  \<^verbatim>\<open>tokenize\<close> works on the runes of a string. A well-formed UTF-8 string is
  represented by its code points; \<open>byteLen\<close> is the Go \<^verbatim>\<open>len\<close> of such a string, the
  number of bytes of its encoding (a rune that cannot be encoded is written as U+FFFD,
  three bytes).
\<close>

definition runeLen :: "rune \<Rightarrow> nat" where
  "runeLen r =
     (if r < 0x80 then 1
      else if r < 0x800 then 2
      else if (0xD800 \<le> r \<and> r \<le> 0xDFFF) \<or> 0x10FFFF < r then 3
      else if r < 0x10000 then 3
      else 4)"

definition byteLen :: "rune list \<Rightarrow> nat" where
  "byteLen w = sum_list (map runeLen w)"

text \<open>
  The tables of Go's \<^verbatim>\<open>unicode\<close> package. Up to U+00FF (for \<^verbatim>\<open>ToLower\<close>: the
  Latin-1 rows of the case table) they are written out; beyond, they are parameters.
\<close>

record unicode =
  letterTab :: "rune \<Rightarrow> bool"
  digitTab :: "rune \<Rightarrow> bool"
  lowerTab :: "rune \<Rightarrow> rune"

definition IsLetter :: "unicode \<Rightarrow> rune \<Rightarrow> bool" where
  "IsLetter U r =
     (if r \<le> 0xFF then
        (0x41 \<le> r \<and> r \<le> 0x5A) \<or> (0x61 \<le> r \<and> r \<le> 0x7A) \<or>
        r = 0xAA \<or> r = 0xB5 \<or> r = 0xBA \<or>
        (0xC0 \<le> r \<and> r \<le> 0xD6) \<or> (0xD8 \<le> r \<and> r \<le> 0xF6) \<or> 0xF8 \<le> r
      else letterTab U r)"

definition IsDigit :: "unicode \<Rightarrow> rune \<Rightarrow> bool" where
  "IsDigit U r = (if r \<le> 0xFF then 0x30 \<le> r \<and> r \<le> 0x39 else digitTab U r)"

definition ToLower :: "unicode \<Rightarrow> rune \<Rightarrow> rune" where
  "ToLower U r =
     (if r \<le> 0x7F then (if 0x41 \<le> r \<and> r \<le> 0x5A then r + 0x20 else r)
      else if r \<le> 0xFF then
        (if (0xC0 \<le> r \<and> r \<le> 0xD6) \<or> (0xD8 \<le> r \<and> r \<le> 0xDE) then r + 0x20 else r)
      else lowerTab U r)"

text \<open>
  \<^verbatim>\<open>strings.FieldsFunc\<close>: \<open>cur\<close> is the field being read (empty when the scan is
  between fields).
\<close>

fun fieldsFrom :: "(rune \<Rightarrow> bool) \<Rightarrow> rune list \<Rightarrow> rune list \<Rightarrow> rune list list" where
  "fieldsFrom f cur [] = (if cur = [] then [] else [cur])"
| "fieldsFrom f cur (r # rs) =
     (if f r then (if cur = [] then fieldsFrom f [] rs else cur # fieldsFrom f [] rs)
      else fieldsFrom f (cur @ [r]) rs)"

definition FieldsFunc :: "rune list \<Rightarrow> (rune \<Rightarrow> bool) \<Rightarrow> rune list list" where
  "FieldsFunc s f = fieldsFrom f [] s"

text \<open>The loop of \<^verbatim>\<open>tokenize\<close> over the words, with its \<^verbatim>\<open>seen\<close> set and result.\<close>

fun tokenLoop :: "rune list list \<Rightarrow> rune list set \<Rightarrow> rune list list \<Rightarrow> rune list list" where
  "tokenLoop [] seen result = result"
| "tokenLoop (w # ws) seen result =
     (if byteLen w < 2 then tokenLoop ws seen result
      else if w \<notin> seen then tokenLoop ws (insert w seen) (result @ [w])
      else tokenLoop ws seen result)"

definition tokenize :: "unicode \<Rightarrow> rune list \<Rightarrow> rune list list" where
  "tokenize U text =
     (let words = FieldsFunc (map (ToLower U) text) (\<lambda>r. \<not> IsLetter U r \<and> \<not> IsDigit U r)
      in tokenLoop words {} [])"

text \<open>
  The tokenization in the words of the specification: split at every separator, drop
  the tokens that are too short under a given measure of length, keep the first
  occurrence of each token.
\<close>

fun splitAtEvery :: "(rune \<Rightarrow> bool) \<Rightarrow> rune list \<Rightarrow> rune list list" where
  "splitAtEvery f [] = [[]]"
| "splitAtEvery f (r # rs) =
     (if f r then [] # splitAtEvery f rs
      else (case splitAtEvery f rs of [] \<Rightarrow> [[r]] | x # xs \<Rightarrow> (r # x) # xs))"

fun keepFirst :: "'a list \<Rightarrow> 'a list" where
  "keepFirst [] = []"
| "keepFirst (x # xs) = x # filter (\<lambda>y. y \<noteq> x) (keepFirst xs)"

definition tokenizeSpec :: "(rune list \<Rightarrow> nat) \<Rightarrow> unicode \<Rightarrow> rune list \<Rightarrow> rune list list" where
  "tokenizeSpec len U text =
     keepFirst (filter (\<lambda>w. 2 \<le> len w)
       (splitAtEvery (\<lambda>r. \<not> IsLetter U r \<and> \<not> IsDigit U r) (map (ToLower U) text)))"

text \<open>Tables that know no letter or digit beyond U+00FF, for evaluation on Latin-1 text.\<close>

definition latin1 :: unicode where
  "latin1 = \<lparr> letterTab = (\<lambda>r. False), digitTab = (\<lambda>r. False), lowerTab = (\<lambda>r. r) \<rparr>"

section \<open>Libraries outside the repository\<close>

text \<open>
  The program calls libraries that are not part of the repository. They are parameters
  of the model:
  \<^item> \<open>sha256\<close>: \<^verbatim>\<open>crypto/sha256\<close>, the 32-byte digest;
  \<^item> \<open>multibase32\<close>: \<^verbatim>\<open>multibase.Encode(multibase.Base32, _)\<close>;
  \<^item> \<open>decodeCid\<close>: \<^verbatim>\<open>multibase.Decode\<close> followed by \<^verbatim>\<open>gocid.Cast\<close>;
  \<^item> \<open>rfc3339\<close>: the JSON text of a \<^verbatim>\<open>time.Time\<close> (without the quotes);
  \<^item> \<open>base64\<close>: the JSON text of a \<^verbatim>\<open>[]byte\<close> (without the quotes);
  \<^item> \<open>formatFloat\<close>: the JSON text of an integer beyond \<open>2^53\<close>, which
    \<^verbatim>\<open>json.Unmarshal\<close> has rounded to a \<^verbatim>\<open>float64\<close>;
  \<^item> \<open>unmarshalNode\<close>, \<open>unmarshalCommit\<close>: \<^verbatim>\<open>json.Unmarshal\<close> into a
    \<^verbatim>\<open>NodeEnvelope\<close> and into a \<^verbatim>\<open>CommitObject\<close>;
  \<^item> \<open>searchText\<close>: the runes of the text that \<^verbatim>\<open>IndexNode\<close> assembles from an
    envelope (base64 decoding, \<^verbatim>\<open>fmt.Sprintf("%v")\<close>, UTF-8 decoding);
  \<^item> \<open>tables\<close>: the Unicode tables.
\<close>

record lib =
  sha256 :: "bytes \<Rightarrow> bytes"
  multibase32 :: "bytes \<Rightarrow> string"
  decodeCid :: "string \<Rightarrow> cid option"
  rfc3339 :: "time \<Rightarrow> string"
  base64 :: "bytes \<Rightarrow> string"
  formatFloat :: "int \<Rightarrow> string"
  unmarshalNode :: "bytes \<Rightarrow> NodeEnvelope option"
  unmarshalCommit :: "bytes \<Rightarrow> CommitObject option"
  searchText :: "string \<Rightarrow> NodeEnvelope \<Rightarrow> rune list"
  tables :: unicode

section \<open>Canonical JSON (unnamed/part_002)\<close>

fun joinComma :: "bytes list \<Rightarrow> bytes" where
  "joinComma [] = []"
| "joinComma [x] = x"
| "joinComma (x # y # zs) = x @ '','' @ joinComma (y # zs)"

definition marshalNumber :: "lib \<Rightarrow> int \<Rightarrow> bytes" where
  "marshalNumber L n = (if \<bar>n\<bar> \<le> 2 ^ 53 then decimal n else formatFloat L n)"

text \<open>
  \<^verbatim>\<open>canonicalEncode\<close>: the keys of an object sorted with \<^verbatim>\<open>sort.Strings\<close>, each
  followed by a colon and its value, the items separated by commas; scalars through
  \<^verbatim>\<open>json.Marshal\<close>.
\<close>

function canonicalEncode :: "lib \<Rightarrow> json \<Rightarrow> bytes" where
  "canonicalEncode L (JObject val) =
     ''{'' @ joinComma (map (\<lambda>kv. marshalString (fst kv) @ '':'' @ canonicalEncode L (snd kv))
                          (sort_key fst val)) @ ''}''"
| "canonicalEncode L (JArray val) = ''['' @ joinComma (map (canonicalEncode L) val) @ '']''"
| "canonicalEncode L JNull = ''null''"
| "canonicalEncode L (JBool b) = (if b then ''true'' else ''false'')"
| "canonicalEncode L (JNumber n) = marshalNumber L n"
| "canonicalEncode L (JString s) = marshalString s"
  by pat_completeness auto
termination
proof (relation "measure (\<lambda>(L, v). size v)")
  show "wf (measure (\<lambda>(L, v). size v))" by simp
next
  fix L :: lib and val :: "(string \<times> json) list" and kv
  assume "kv \<in> set (sort_key fst val)"
  then have "kv \<in> set val" by simp
  then have "size (snd kv) < Suc (size_list (size_prod (\<lambda>_. 0) size) val)"
    by (induction val) (auto simp: less_Suc_eq_le)
  then show "((L, snd kv), (L, JObject val)) \<in> measure (\<lambda>(L, v). size v)" by simp
next
  fix L :: lib and val :: "json list" and x
  assume "x \<in> set val"
  then have "size x < Suc (size_list size val)"
    by (induction val) (auto simp: less_Suc_eq_le)
  then show "((L, x), (L, JArray val)) \<in> measure (\<lambda>(L, v). size v)" by simp
qed

text \<open>
  \<^verbatim>\<open>CanonicalJSON\<close> marshals its argument and decodes the text again before it
  encodes. \<open>generic\<close> is the effect of that round trip on a value: strings and keys
  lose their ill-formed bytes, and of two keys that become equal the later one (in the
  sorted order \<^verbatim>\<open>json.Marshal\<close> writes a map in) wins. \<^verbatim>\<open>json.Marshal\<close> does not fail
  on the values of type \<^typ>\<open>json\<close>, so the error branches are not reached.
\<close>

function generic :: "json \<Rightarrow> json" where
  "generic (JObject val) =
     JObject (fold (\<lambda>kv m. AList.update (toValidUTF8 (fst kv)) (generic (snd kv)) m)
                   (sort_key fst val) [])"
| "generic (JArray val) = JArray (map generic val)"
| "generic (JString s) = JString (toValidUTF8 s)"
| "generic JNull = JNull"
| "generic (JBool b) = JBool b"
| "generic (JNumber n) = JNumber n"
  by pat_completeness auto
termination
proof (relation "measure size")
  show "wf (measure size)" by simp
next
  fix val :: "(string \<times> json) list" and kv and m :: "(string \<times> json) list"
  assume "kv \<in> set (sort_key fst val)"
  then have "kv \<in> set val" by simp
  then have "size (snd kv) < Suc (size_list (size_prod (\<lambda>_. 0) size) val)"
    by (induction val) (auto simp: less_Suc_eq_le)
  then show "(snd kv, JObject val) \<in> measure size" by simp
next
  fix val :: "json list" and x
  assume "x \<in> set val"
  then have "size x < Suc (size_list size val)"
    by (induction val) (auto simp: less_Suc_eq_le)
  then show "(x, JArray val) \<in> measure size" by simp
qed

definition CanonicalJSON :: "lib \<Rightarrow> json \<Rightarrow> error + bytes" where
  "CanonicalJSON L v = Inr (canonicalEncode L (generic v))"

section \<open>Signed posts (internal/dagit/messages.go)\<close>

definition stringsJSON :: "string list \<Rightarrow> json" where
  "stringsJSON xs = JArray (map JString xs)"

text \<open>
  \<^verbatim>\<open>signingPayload\<close>: a \<^verbatim>\<open>nil\<close> slice of refs or tags is replaced by the empty
  slice, and the map is built in the order of the source.
\<close>

definition signingPayload :: "lib \<Rightarrow> Post \<Rightarrow> error + bytes" where
  "signingPayload L post =
     (let refs = (case postRefs post of None \<Rightarrow> [] | Some r \<Rightarrow> r);
          tags = (case Tags post of None \<Rightarrow> [] | Some t \<Rightarrow> t);
          m = JObject
                [(''v'', JNumber (postV post)),
                 (''type'', JString (postType post)),
                 (''content'', JString (postContent post)),
                 (''author'', JString (Author post)),
                 (''refs'', stringsJSON refs),
                 (''tags'', stringsJSON tags),
                 (''timestamp'', JString (postTimestamp post))]
      in CanonicalJSON L m)"

definition testDID :: string where
  "testDID = ''did:key:z6MkehRgf7yJbgaGfYsdoAsKdBPE3dj2CYhowQdcjqSJgvVd''"

definition testPost :: Post where
  "testPost =
     \<lparr> postV = 2, postType = ''post'', postContent = ''hello from test'', Author = testDID,
       postRefs = Some [], Tags = Some [], postTimestamp = ''2024-01-01T00:00:00Z'',
       Signature = [] \<rparr>"

text \<open>The form of the payload in the words of the specification.\<close>

definition jstr :: "string \<Rightarrow> bytes" where
  "jstr s = marshalString (toValidUTF8 s)"

definition jarr :: "string list \<Rightarrow> bytes" where
  "jarr xs = ''['' @ joinComma (map jstr xs) @ '']''"

definition orEmpty :: "string list option \<Rightarrow> string list" where
  "orEmpty xs = (case xs of None \<Rightarrow> [] | Some ys \<Rightarrow> ys)"

section \<open>Sorting with a comparison function\<close>

text \<open>
  \<^verbatim>\<open>sort.Slice(xs, less)\<close> returns a permutation ordered by \<^verbatim>\<open>less\<close>; the order of
  elements that \<^verbatim>\<open>less\<close> does not separate is unspecified in Go. The model is the
  insertion sort that keeps their order.
\<close>

fun insertBy :: "('a \<Rightarrow> 'a \<Rightarrow> bool) \<Rightarrow> 'a \<Rightarrow> 'a list \<Rightarrow> 'a list" where
  "insertBy lt x [] = [x]"
| "insertBy lt x (y # ys) = (if lt y x then y # insertBy lt x ys else x # y # ys)"

definition sortSlice :: "('a \<Rightarrow> 'a \<Rightarrow> bool) \<Rightarrow> 'a list \<Rightarrow> 'a list" where
  "sortSlice lt xs = foldr (insertBy lt) xs []"

section \<open>Object store (second part of internal/dag/cochange.go)\<close>

text \<open>
  A \<^verbatim>\<open>gocid.Cid\<close> is its binary form; \<^verbatim>\<open>gocid.Undef\<close> is the empty one.
  \<^verbatim>\<open>ComputeCID\<close>: the multihash of the SHA-256 digest (code 0x12, length 0x20) behind
  the CIDv1 header (version 1, codec raw = 0x55). \<^verbatim>\<open>multihash.Sum\<close> does not fail for
  SHA-256, so \<^verbatim>\<open>ComputeCID\<close> returns no error. The file of an object is named by the
  textual CID, base32 text without a slash, which \<^verbatim>\<open>filepath.Join\<close> leaves as it
  is: the object store works on the names of its directory.
\<close>

definition Undef :: cid where
  "Undef = []"

definition ComputeCID :: "lib \<Rightarrow> bytes \<Rightarrow> cid" where
  "ComputeCID L data = [CHR 0x01, CHR 0x55] @ ([CHR 0x12, CHR 0x20] @ sha256 L data)"

definition CIDToFilename :: "lib \<Rightarrow> cid \<Rightarrow> string" where
  "CIDToFilename L c = multibase32 L c"

definition ObjectStore_Put :: "lib \<Rightarrow> dir \<Rightarrow> bytes \<Rightarrow> error + (cid \<times> dir)" where
  "ObjectStore_Put L s data =
     (let c = ComputeCID L data; path = CIDToFilename L c
      in if Stat s path then Inr (c, s)
         else (case SafeWrite s path data of
                 Inl e \<Rightarrow> Inl e
               | Inr s' \<Rightarrow> Inr (c, s')))"

definition ObjectStore_Get :: "lib \<Rightarrow> dir \<Rightarrow> cid \<Rightarrow> error + bytes" where
  "ObjectStore_Get L s c =
     (case ReadFile s (CIDToFilename L c) of
        Inl e \<Rightarrow> Inl (ReadObject c)
      | Inr data \<Rightarrow> Inr data)"

definition ObjectStore_Has :: "lib \<Rightarrow> dir \<Rightarrow> cid \<Rightarrow> bool" where
  "ObjectStore_Has L s c = Stat s (CIDToFilename L c)"

section \<open>Ref store (internal/dag/refs.go)\<close>

definition refFilename :: "string \<Rightarrow> string" where
  "refFilename nid = ReplaceAll nid '':'' ''__''"

definition refIDFromFilename :: "string \<Rightarrow> string" where
  "refIDFromFilename name = ReplaceAll name ''__'' '':''"

text \<open>
  \<^verbatim>\<open>strings.TrimSpace\<close>, for the white space of ASCII (the white space beyond U+007F,
  which Go strips as well, does not occur in the files the program writes).
\<close>

definition isSpace :: "char \<Rightarrow> bool" where
  "isSpace c \<longleftrightarrow> c \<in> {CHR 0x09, CHR 0x0A, CHR 0x0B, CHR 0x0C, CHR 0x0D, CHR 0x20}"

definition TrimSpace :: "string \<Rightarrow> string" where
  "TrimSpace s = rev (dropWhile isSpace (rev (dropWhile isSpace s)))"

text \<open>
  Each operation joins the directory and the file name of the ID, and works on the
  path that results.
\<close>

definition RefStore_Set :: "lib \<Rightarrow> dir \<Rightarrow> string \<Rightarrow> cid \<Rightarrow> error + dir" where
  "RefStore_Set L r nid c = WritePath r (refFilename nid) (multibase32 L c)"

definition RefStore_Get :: "lib \<Rightarrow> dir \<Rightarrow> string \<Rightarrow> error + cid" where
  "RefStore_Get L r nid =
     (case ReadPath r (refFilename nid) of
        Inl e \<Rightarrow> Inl (RefNotFound nid)
      | Inr data \<Rightarrow>
          (case decodeCid L (TrimSpace data) of
             None \<Rightarrow> Inl (DecodeCID (TrimSpace data))
           | Some c \<Rightarrow> Inr c))"

definition RefStore_Delete :: "dir \<Rightarrow> string \<Rightarrow> error + dir" where
  "RefStore_Delete r nid = RemovePath r (refFilename nid)"

definition RefStore_Has :: "dir \<Rightarrow> string \<Rightarrow> bool" where
  "RefStore_Has r nid = StatPath r (refFilename nid)"

definition RefStore_List :: "dir \<Rightarrow> string list" where
  "RefStore_List r = map refIDFromFilename (ReadDir r)"

section \<open>Link index (internal/dag/link.go)\<close>

record LinkIndex =
  journal :: bytes
  forward :: "(string \<times> LinkEntry list) list"
  reverse :: "(string \<times> LinkEntry list) list"

definition noLinks :: LinkIndex where
  "noLinks = \<lparr> journal = [], forward = [], reverse = [] \<rparr>"

definition bucket :: "(string \<times> 'a list) list \<Rightarrow> string \<Rightarrow> 'a list" where
  "bucket m k = (case map_of m k of None \<Rightarrow> [] | Some xs \<Rightarrow> xs)"



text \<open>
  \<^verbatim>\<open>LinkIndex.AllEntries\<close> walks the forward map; Go leaves the order of the keys
  open, the model takes the order of insertion.
\<close>

definition LinkIndex_AllEntries :: "LinkIndex \<Rightarrow> LinkEntry list" where
  "LinkIndex_AllEntries idx = concat (map snd (forward idx))"

section \<open>Search index (unnamed/part_003)\<close>

record SearchIndex =
  index :: "rune list \<rightharpoonup> string set"
  types :: "string \<rightharpoonup> string set"

definition NewSearchIndex :: SearchIndex where
  "NewSearchIndex = \<lparr> index = Map.empty, types = Map.empty \<rparr>"

definition addTo :: "('k \<rightharpoonup> string set) \<Rightarrow> 'k \<Rightarrow> string \<Rightarrow> ('k \<rightharpoonup> string set)" where
  "addTo m k nid = m(k \<mapsto> insert nid (case m k of None \<Rightarrow> {} | Some nids \<Rightarrow> nids))"

definition IndexNode :: "lib \<Rightarrow> SearchIndex \<Rightarrow> string \<Rightarrow> NodeEnvelope \<Rightarrow> SearchIndex" where
  "IndexNode L s nid node =
     (let terms = tokenize (tables L) (searchText L nid node);
          idx = fold (\<lambda>term m. addTo m term nid) terms (index s)
      in s \<lparr> index := idx,
             types := (if Type node \<noteq> [] then addTo (types s) (Type node) nid else types s) \<rparr>)"

definition dropFrom :: "('k \<rightharpoonup> string set) \<Rightarrow> string \<Rightarrow> ('k \<rightharpoonup> string set)" where
  "dropFrom m nid =
     (\<lambda>k. case m k of
            None \<Rightarrow> None
          | Some nids \<Rightarrow> if nids - {nid} = {} then None else Some (nids - {nid}))"

definition RemoveNode :: "SearchIndex \<Rightarrow> string \<Rightarrow> SearchIndex" where
  "RemoveNode s nid = s \<lparr> index := dropFrom (index s) nid, types := dropFrom (types s) nid \<rparr>"

section \<open>Commit log (last part of internal/dag/safefile_test.go)\<close>

text \<open>
  The log is the \<^verbatim>\<open>HEAD\<close> file (absent: \<open>None\<close>) and the author; the object store
  it shares with the repository is passed to each operation.
\<close>

record CommitLog =
  headFile :: "bytes option"
  author :: string

definition CommitLog_Head :: "lib \<Rightarrow> CommitLog \<Rightarrow> error + cid" where
  "CommitLog_Head L cl =
     (case headFile cl of
        None \<Rightarrow> Inr Undef
      | Some data \<Rightarrow>
          (let s = TrimSpace data
           in if s = [] then Inr Undef
              else (case decodeCid L s of
                      None \<Rightarrow> Inl (DecodeCID s)
                    | Some c \<Rightarrow> Inr c)))"

text \<open>
  The JSON object that \<^verbatim>\<open>json.Marshal\<close> writes for a struct: one member per field,
  named by its tag, a field tagged \<^verbatim>\<open>omitempty\<close> left out when empty. A \<^verbatim>\<open>nil\<close>
  slice is \<^verbatim>\<open>null\<close>; \<^verbatim>\<open>AllEntries\<close> returns the \<^verbatim>\<open>nil\<close> slice exactly when there
  is no link.
\<close>

definition linkJSON :: "LinkEntry \<Rightarrow> json" where
  "linkJSON e =
     JObject [(''source'', JString (Source e)), (''target'', JString (Target e)),
              (''type'', JString (linkType e))]"

definition commitJSON :: "lib \<Rightarrow> CommitObject \<Rightarrow> json" where
  "commitJSON L co =
     JObject
       ([(''v'', JNumber (commitV co))] @
        (if Parent co = [] then [] else [(''parent'', JString (Parent co))]) @
        [(''timestamp'', JString (rfc3339 L (Timestamp co))),
         (''refs'', JObject (map (\<lambda>kv. (fst kv, JString (snd kv))) (commitRefs co))),
         (''links'', if commitLinks co = [] then JNull else JArray (map linkJSON (commitLinks co)))] @
        (if Message co = [] then [] else [(''message'', JString (Message co))]))"

definition linkLess :: "LinkEntry \<Rightarrow> LinkEntry \<Rightarrow> bool" where
  "linkLess a b =
     (if Source a \<noteq> Source b then Source a < Source b
      else if Target a \<noteq> Target b then Target a < Target b
      else linkType a < linkType b)"

text \<open>
  Steps 1 to 4 of \<^verbatim>\<open>CommitLog.Commit\<close>: the snapshot of the refs (a ref that cannot
  be read is skipped), the sorted links, the parent read from \<^verbatim>\<open>HEAD\<close>, and the commit
  object. The literal in the source also has \<^verbatim>\<open>Author: cl.author\<close>; the struct
  \<^verbatim>\<open>CommitObject\<close> has no such field to receive it.
\<close>

definition snapshotRefs :: "lib \<Rightarrow> dir \<Rightarrow> (string \<times> string) list" where
  "snapshotRefs L refs =
     fold (\<lambda>nid refsMap.
             case RefStore_Get L refs nid of
               Inl e \<Rightarrow> refsMap
             | Inr c \<Rightarrow> AList.update nid (CIDToFilename L c) refsMap)
          (sort (RefStore_List refs)) []"

definition buildCommit ::
    "lib \<Rightarrow> CommitLog \<Rightarrow> dir \<Rightarrow> LinkIndex \<Rightarrow> string \<Rightarrow> time \<Rightarrow> CommitObject" where
  "buildCommit L cl refs links message now =
     (let refsMap = snapshotRefs L refs;
          allLinks = sortSlice linkLess (LinkIndex_AllEntries links);
          parent = (case CommitLog_Head L cl of
                      Inr head \<Rightarrow> if head \<noteq> Undef then CIDToFilename L head else []
                    | Inl e \<Rightarrow> [])
      in \<lparr> commitV = 1, Parent = parent, Timestamp = now, commitRefs = refsMap,
           commitLinks = allLinks, Message = message \<rparr>)"

definition commitBytes :: "lib \<Rightarrow> CommitObject \<Rightarrow> bytes" where
  "commitBytes L co = canonicalEncode L (generic (commitJSON L co))"

text \<open>Steps 5 and 6: serialize, store, and write the textual CID and a newline to HEAD.\<close>

definition CommitLog_Commit ::
    "lib \<Rightarrow> dir \<Rightarrow> CommitLog \<Rightarrow> dir \<Rightarrow> LinkIndex \<Rightarrow> string \<Rightarrow> time
      \<Rightarrow> error + (cid \<times> dir \<times> CommitLog)" where
  "CommitLog_Commit L store cl refs links message now =
     (let commit = buildCommit L cl refs links message now
      in case CanonicalJSON L (commitJSON L commit) of
           Inl e \<Rightarrow> Inl e
         | Inr data \<Rightarrow>
             (case ObjectStore_Put L store data of
                Inl e \<Rightarrow> Inl e
              | Inr (c, store') \<Rightarrow>
                  Inr (c, store', cl \<lparr> headFile := Some (CIDToFilename L c @ [CHR 0x0A]) \<rparr>)))"

definition CommitLog_GetCommit :: "lib \<Rightarrow> dir \<Rightarrow> cid \<Rightarrow> error + CommitObject" where
  "CommitLog_GetCommit L store c =
     (case ObjectStore_Get L store c of
        Inl e \<Rightarrow> Inl e
      | Inr data \<Rightarrow>
          (case unmarshalCommit L data of
             None \<Rightarrow> Inl (Unmarshal ''commit'')
           | Some commit \<Rightarrow> Inr commit))"

text \<open>
  The loop of \<^verbatim>\<open>CommitLog.Log\<close>, with the number of rounds that are left: it stops at
  an undefined CID, at a commit that cannot be read, at an empty parent and at a parent
  that cannot be decoded.
\<close>

fun logWalk :: "lib \<Rightarrow> dir \<Rightarrow> nat \<Rightarrow> cid \<Rightarrow> CommitObject list" where
  "logWalk L store 0 current = []"
| "logWalk L store (Suc k) current =
     (if current = Undef then []
      else (case CommitLog_GetCommit L store current of
              Inl e \<Rightarrow> []
            | Inr commit \<Rightarrow>
                commit #
                (if Parent commit = [] then []
                 else (case decodeCid L (Parent commit) of
                         None \<Rightarrow> []
                       | Some c \<Rightarrow> logWalk L store k c))))"

definition CommitLog_Log :: "lib \<Rightarrow> dir \<Rightarrow> CommitLog \<Rightarrow> int \<Rightarrow> error + CommitObject list" where
  "CommitLog_Log L store cl n =
     (case CommitLog_Head L cl of
        Inl e \<Rightarrow> Inl e
      | Inr head \<Rightarrow> if head = Undef then Inr [] else Inr (logWalk L store (nat n) head))"

section \<open>Repository (internal/dag/repo.go)\<close>

record Repository =
  Store :: dir
  Refs :: dir
  Links :: LinkIndex
  Search :: SearchIndex
  Commits :: CommitLog

text \<open>The JSON object of a \<^verbatim>\<open>NodeEnvelope\<close>, and its canonical bytes.\<close>

definition nodeJSON :: "lib \<Rightarrow> NodeEnvelope \<Rightarrow> json" where
  "nodeJSON L node =
     JObject
       ([(''v'', JNumber (V node)), (''id'', JString (ID node)), (''type'', JString (Type node))] @
        (case Content node of
           None \<Rightarrow> []
         | Some b \<Rightarrow> if b = [] then [] else [(''content'', JString (base64 L b))]) @
        (case Meta node of
           None \<Rightarrow> []
         | Some m \<Rightarrow> if m = [] then [] else [(''meta'', JObject m)]) @
        [(''created'', JString (rfc3339 L (Created node))),
         (''modified'', JString (rfc3339 L (Modified node)))] @
        (if Prev node = [] then [] else [(''prev'', JString (Prev node))]) @
        (if Deleted node then [(''deleted'', JBool True)] else []))"

definition nodeBytes :: "lib \<Rightarrow> NodeEnvelope \<Rightarrow> bytes" where
  "nodeBytes L node = canonicalEncode L (generic (nodeJSON L node))"

text \<open>
  \<^verbatim>\<open>Repository.commit\<close>: a commit after a mutation; its failure is a warning and
  changes nothing.
\<close>

definition commit :: "lib \<Rightarrow> time \<Rightarrow> string \<Rightarrow> Repository \<Rightarrow> Repository" where
  "commit L now message r =
     (case CommitLog_Commit L (Store r) (Commits r) (Refs r) (Links r) message now of
        Inl e \<Rightarrow> r
      | Inr (c, store', cl') \<Rightarrow> r \<lparr> Store := store', Commits := cl' \<rparr>)"

definition getNodeEnvelope :: "lib \<Rightarrow> Repository \<Rightarrow> string \<Rightarrow> error + NodeEnvelope" where
  "getNodeEnvelope L r nid =
     (case RefStore_Get L (Refs r) nid of
        Inl e \<Rightarrow> Inl e
      | Inr c \<Rightarrow>
          (case ObjectStore_Get L (Store r) c of
             Inl e \<Rightarrow> Inl e
           | Inr data \<Rightarrow>
               (case unmarshalNode L data of
                  None \<Rightarrow> Inl (Unmarshal ''node'')
                | Some node \<Rightarrow> Inr node)))"

text \<open>
  The three steps that every writer of an envelope repeats: \<^verbatim>\<open>CanonicalJSON\<close>,
  \<^verbatim>\<open>Store.Put\<close>, \<^verbatim>\<open>Refs.Set\<close>; the error, if any, and the repository as the
  failed step leaves it.
\<close>

definition putNode :: "lib \<Rightarrow> Repository \<Rightarrow> string \<Rightarrow> NodeEnvelope \<Rightarrow> error option \<times> Repository" where
  "putNode L r nid node =
     (case CanonicalJSON L (nodeJSON L node) of
        Inl e \<Rightarrow> (Some e, r)
      | Inr data \<Rightarrow>
          (case ObjectStore_Put L (Store r) data of
             Inl e \<Rightarrow> (Some e, r)
           | Inr (c, store') \<Rightarrow>
               (case RefStore_Set L (Refs r) nid c of
                  Inl e \<Rightarrow> (Some e, r \<lparr> Store := store' \<rparr>)
                | Inr refs' \<Rightarrow> (None, r \<lparr> Store := store', Refs := refs' \<rparr>))))"

text \<open>
  The operations take the two readings of the clock they make: \<open>now\<close> for the
  envelope and \<open>cnow\<close> for the commit.
\<close>

definition CreateNode ::
    "lib \<Rightarrow> time \<Rightarrow> time \<Rightarrow> string \<Rightarrow> string \<Rightarrow> bytes option \<Rightarrow> (string \<times> json) list option
      \<Rightarrow> Repository \<Rightarrow> (error + NodeEnvelope) \<times> Repository" where
  "CreateNode L now cnow nid typ content meta r =
     (let node = \<lparr> V = 1, ID = nid, Type = typ, Content = content, Meta = meta,
                   Created = now, Modified = now, Prev = [], Deleted = False \<rparr>
      in case putNode L r nid node of
           (Some e, r1) \<Rightarrow> (Inl e, r1)
         | (None, r1) \<Rightarrow>
             (Inr node,
              commit L cnow (''create '' @ nid)
                (r1 \<lparr> Search := IndexNode L (Search r1) nid node \<rparr>)))"

definition GetNode :: "lib \<Rightarrow> Repository \<Rightarrow> string \<Rightarrow> error + NodeEnvelope" where
  "GetNode L r nid =
     (case getNodeEnvelope L r nid of
        Inl e \<Rightarrow> Inl e
      | Inr node \<Rightarrow> if Deleted node then Inl (NodeDeleted nid) else Inr node)"

definition ListNodes :: "lib \<Rightarrow> Repository \<Rightarrow> int \<Rightarrow> string list" where
  "ListNodes L r limit =
     (let nids = RefStore_List (Refs r);
          result = filter (\<lambda>nid. case getNodeEnvelope L r nid of
                                     Inl e \<Rightarrow> False
                                   | Inr node \<Rightarrow> \<not> Deleted node) nids
      in if 0 < limit \<and> limit < int (length result) then take (nat limit) result else result)"

definition prevOf :: "lib \<Rightarrow> Repository \<Rightarrow> string \<Rightarrow> cid" where
  "prevOf L r nid = (case RefStore_Get L (Refs r) nid of Inl e \<Rightarrow> Undef | Inr c \<Rightarrow> c)"



text \<open>The tombstone that a soft delete writes in place of the envelope \<open>current\<close>.\<close>

definition tombstone :: "lib \<Rightarrow> Repository \<Rightarrow> string \<Rightarrow> NodeEnvelope \<Rightarrow> time \<Rightarrow> NodeEnvelope" where
  "tombstone L r nid current now =
     \<lparr> V = 1, ID = nid, Type = Type current, Content = None, Meta = Meta current,
       Created = Created current, Modified = now,
       Prev = CIDToFilename L (prevOf L r nid), Deleted = True \<rparr>"

definition DeleteNode ::
    "lib \<Rightarrow> time \<Rightarrow> time \<Rightarrow> string \<Rightarrow> bool \<Rightarrow> Repository \<Rightarrow> error option \<times> Repository" where
  "DeleteNode L now cnow nid force r =
     (if force then
        (let r0 = r \<lparr> Search := RemoveNode (Search r) nid \<rparr>
         in case RefStore_Delete (Refs r0) nid of
              Inl e \<Rightarrow> (Some e, r0)
            | Inr refs' \<Rightarrow> (None, commit L cnow (''delete '' @ nid) (r0 \<lparr> Refs := refs' \<rparr>)))
      else
        (case getNodeEnvelope L r nid of
           Inl e \<Rightarrow> (Some e, r)
         | Inr current \<Rightarrow>
             (case putNode L r nid (tombstone L r nid current now) of
                (Some e, r1) \<Rightarrow> (Some e, r1)
              | (None, r1) \<Rightarrow>
                  (None,
                   commit L cnow (''delete '' @ nid)
                     (r1 \<lparr> Search := RemoveNode (Search r1) nid \<rparr>)))))"



text \<open>\<^verbatim>\<open>hex.EncodeToString\<close>: two lowercase digits for each byte.\<close>

definition hexEncode :: "bytes \<Rightarrow> string" where
  "hexEncode bs = concat (map (\<lambda>b. [hexDigit ((of_char b :: nat) div 16), hexDigit (of_char b)]) bs)"

definition ingestID :: "lib \<Rightarrow> string \<Rightarrow> string" where
  "ingestID L content = ''sha256:'' @ hexEncode (sha256 L content)"

definition Ingest ::
    "lib \<Rightarrow> time \<Rightarrow> time \<Rightarrow> string \<Rightarrow> string \<Rightarrow> Repository
      \<Rightarrow> (error + (string \<times> bool)) \<times> Repository" where
  "Ingest L now cnow content format r =
     (let nid = ingestID L content
      in if RefStore_Has (Refs r) nid then (Inr (nid, False), r)
         else
           (let meta = [(''format'', JString format),
                        (''size_bytes'', JNumber (int (length content)))]
            in case CreateNode L now cnow nid ''Source'' (Some content) (Some meta) r of
                 (Inl e, r1) \<Rightarrow> (Inl e, r1)
               | (Inr node, r1) \<Rightarrow> (Inr (nid, True), r1)))"

section \<open>Co-change index (first part of internal/dag/cochange.go)\<close>

text \<open>
  The pair counts \<^verbatim>\<open>map[string]map[string]int\<close>, and the sets \<^verbatim>\<open>map[string]bool\<close> as
  lists without repetition. Go leaves the order in which a map is walked open; the
  model walks in the order of insertion.
\<close>

type_synonym pairs = "(string \<times> (string \<times> int) list) list"

record changeEvent =
  ts :: time
  changed :: "string list"

definition countOf :: "pairs \<Rightarrow> string \<Rightarrow> string \<Rightarrow> int" where
  "countOf P a b = (case map_of (bucket P a) b of None \<Rightarrow> 0 | Some n \<Rightarrow> n)"

definition ensure :: "pairs \<Rightarrow> string \<Rightarrow> pairs" where
  "ensure P a = (if map_of P a = None then AList.update a [] P else P)"

definition incr :: "pairs \<Rightarrow> string \<Rightarrow> string \<Rightarrow> pairs" where
  "incr P a b = AList.update a (AList.update b (countOf P a b + 1) (bucket P a)) P"

definition bump :: "string \<Rightarrow> string \<Rightarrow> pairs \<Rightarrow> pairs" where
  "bump a b P = incr (incr (ensure (ensure P a) b) a b) b a"

fun pairUp :: "pairs \<Rightarrow> string list \<Rightarrow> pairs" where
  "pairUp P [] = P"
| "pairUp P (a # rest) = pairUp (fold (bump a) rest P) rest"

definition addUnique :: "string \<Rightarrow> string list \<Rightarrow> string list" where
  "addUnique x xs = (if x \<in> set xs then xs else xs @ [x])"

definition flushWindow :: "pairs \<Rightarrow> changeEvent list \<Rightarrow> pairs" where
  "flushWindow P events =
     (let nodes = fold (\<lambda>evt unique. fold addUnique (changed evt) unique) events []
      in if length nodes < 2 then P else pairUp P nodes)"

definition diffRefs :: "(string \<times> string) list \<Rightarrow> (string \<times> string) list \<Rightarrow> string list" where
  "diffRefs parent child =
     (let changed1 = fold (\<lambda>kv ch. if map_of parent (fst kv) \<noteq> Some (snd kv)
                                     then addUnique (fst kv) ch else ch) child [];
          changed2 = fold (\<lambda>kv ch. if map_of child (fst kv) = None
                                     then addUnique (fst kv) ch else ch) parent changed1
      in changed2)"

text \<open>
  \<^verbatim>\<open>time.Time.Sub\<close> saturates at the bounds of a \<^verbatim>\<open>time.Duration\<close>;
  \<^verbatim>\<open>IsZero\<close> holds of the zero time.
\<close>

definition Sub :: "time \<Rightarrow> time \<Rightarrow> int" where
  "Sub t u = max (- (2 ^ 63)) (min (2 ^ 63 - 1) (t - u))"

definition IsZero :: "time \<Rightarrow> bool" where
  "IsZero t \<longleftrightarrow> t = 0"

text \<open>The events of the adjacent pairs (child, parent) of a newest-first list.\<close>

fun diffEvents :: "CommitObject list \<Rightarrow> changeEvent list" where
  "diffEvents (child # parent # rest) =
     (let ch = diffRefs (commitRefs parent) (commitRefs child)
      in (if ch \<noteq> [] then [\<lparr> ts = Timestamp child, changed = ch \<rparr>] else []) @
         diffEvents (parent # rest))"
| "diffEvents commits = []"

text \<open>The event of the first commit of the chain, the last of the list: all its refs.\<close>

definition firstEvent :: "CommitObject list \<Rightarrow> changeEvent list" where
  "firstEvent commits =
     (if 0 < length commits then
        (let first = last commits
         in if 0 < length (commitRefs first)
            then [\<lparr> ts = Timestamp first, changed = map fst (commitRefs first) \<rparr>]
            else [])
      else [])"

fun windows :: "int \<Rightarrow> pairs \<Rightarrow> changeEvent list \<Rightarrow> time \<Rightarrow> changeEvent list \<Rightarrow> pairs" where
  "windows window P windowEvents windowStart [] = flushWindow P windowEvents"
| "windows window P windowEvents windowStart (evt # rest) =
     (if \<not> IsZero windowStart \<and> Sub (ts evt) windowStart > window
      then windows window (flushWindow P windowEvents) [evt] (ts evt) rest
      else windows window P (windowEvents @ [evt])
             (if IsZero windowStart then ts evt else windowStart) rest)"

text \<open>
  \<^verbatim>\<open>CoChangeIndex.Build\<close> after the commits are fetched: the early return, the
  events, their sort by time and the windows.
\<close>

definition buildFrom :: "int \<Rightarrow> pairs \<Rightarrow> CommitObject list \<Rightarrow> pairs" where
  "buildFrom window P commits =
     (if length commits < 2 then P
      else
        (let events = diffEvents commits @ firstEvent commits;
             sorted = sortSlice (\<lambda>a b. ts a < ts b) events
         in windows window P [] 0 sorted))"

definition CoChangeIndex_Build :: "lib \<Rightarrow> int \<Rightarrow> dir \<Rightarrow> CommitLog \<Rightarrow> pairs \<Rightarrow> pairs" where
  "CoChangeIndex_Build L window store cl P =
     (case CommitLog_Log L store cl 1000 of
        Inl e \<Rightarrow> P
      | Inr commits \<Rightarrow> buildFrom window P commits)"

section \<open>Relatedness index (internal/dag/related.go)\<close>

text \<open>
  The scores are \<^verbatim>\<open>float64\<close>: \<^verbatim>\<open>scores[id] += float64(count) * 1.0\<close>, and
  \<^verbatim>\<open>* 2.0\<close> for the co-change counts. Every value that arises is an integer (a count
  converted, that value doubled, a sum of two such values), so the model keeps a score
  as the integer that it is and rounds where the machine rounds, at the conversion and
  at the sum: \<open>float64 n\<close> is the \<^verbatim>\<open>float64\<close> nearest to the integer \<open>n\<close>, a
  significand of 53 bits, a tie going to the even significand. Doubling is exact. The
  counts are Go \<^verbatim>\<open>int\<close>s of 64 bits, far below the largest \<^verbatim>\<open>float64\<close>.
\<close>

function bits :: "int \<Rightarrow> nat" where
  "bits n = (if n \<le> 0 then 0 else Suc (bits (n div 2)))"
  by pat_completeness auto
termination
  by (relation "measure nat") auto

declare bits.simps [simp del]

definition roundMagnitude :: "int \<Rightarrow> int" where
  "roundMagnitude m =
     (if m \<le> 2 ^ 53 then m
      else (let e = bits m - 53;
                q = m div 2 ^ e;
                r = m mod 2 ^ e;
                half = 2 ^ (e - 1)
            in (if r < half \<or> (r = half \<and> even q) then q else q + 1) * 2 ^ e))"

definition float64 :: "int \<Rightarrow> int" where
  "float64 n = (if n < 0 then - roundMagnitude (- n) else roundMagnitude n)"

definition addScore :: "int \<Rightarrow> string \<times> int \<Rightarrow> (string \<times> int) list \<Rightarrow> (string \<times> int) list" where
  "addScore weight kv scores =
     AList.update (fst kv)
       (float64 ((case map_of scores (fst kv) of None \<Rightarrow> 0 | Some x \<Rightarrow> x) +
                 float64 (snd kv) * weight)) scores"

definition scoreLess :: "string \<times> int \<Rightarrow> string \<times> int \<Rightarrow> bool" where
  "scoreLess a b = (if snd a \<noteq> snd b then snd a > snd b else fst a < fst b)"

definition RelatednessIndex_Related :: "pairs \<Rightarrow> pairs \<Rightarrow> string \<Rightarrow> int \<Rightarrow> string list" where
  "RelatednessIndex_Related coAccess coChange nodeID limit =
     (let scores1 = fold (addScore 1) (bucket coAccess nodeID) [];
          scores = fold (addScore 2) (bucket coChange nodeID) scores1
      in if length scores = 0 then []
         else
           (let results = sortSlice scoreLess scores;
                results' = (if 0 < limit \<and> limit < int (length results)
                            then take (nat limit) results else results)
            in map fst results'))"

text \<open>The ranking in the words of the specification.\<close>

definition combined :: "pairs \<Rightarrow> pairs \<Rightarrow> string \<Rightarrow> string \<Rightarrow> int" where
  "combined coAccess coChange nodeID p =
     1 * countOf coAccess nodeID p + 2 * countOf coChange nodeID p"

definition ranksBefore :: "(string \<Rightarrow> int) \<Rightarrow> string \<Rightarrow> string \<Rightarrow> bool" where
  "ranksBefore score p q \<longleftrightarrow> score p > score q \<or> (score p = score q \<and> p < q)"

definition look :: "(string \<times> int) list \<Rightarrow> string \<Rightarrow> int" where
  "look m k = (case map_of m k of None \<Rightarrow> 0 | Some x \<Rightarrow> x)"

section \<open>Invariants of the object store\<close>

text \<open>
  Every object is filed under the name of its own CID, which \<^verbatim>\<open>Put\<close> maintains; and
  no two of the objects considered have the same name (no collision of the hash).
\<close>

definition objName :: "lib \<Rightarrow> bytes \<Rightarrow> string" where
  "objName L data = CIDToFilename L (ComputeCID L data)"

definition wfStore :: "lib \<Rightarrow> dir \<Rightarrow> bool" where
  "wfStore L store \<longleftrightarrow> (\<forall>entry \<in> set store. fst entry = objName L (snd entry))"

definition collisionFree :: "lib \<Rightarrow> bytes set \<Rightarrow> bool" where
  "collisionFree L objects \<longleftrightarrow> inj_on (objName L) objects"

section \<open>What the libraries owe the program\<close>

text \<open>
  The JSON decoder and the CID decoder are parameters; the properties below state, for
  one object, what the real libraries do: the decoder reads back the envelope (or the
  commit object) that was serialized, and the textual CID decodes to the CID, is not
  empty and has no white space at its ends.
\<close>

definition textOK :: "lib \<Rightarrow> cid \<Rightarrow> bool" where
  "textOK L c \<longleftrightarrow>
     decodeCid L (CIDToFilename L c) = Some c \<and>
     TrimSpace (CIDToFilename L c) = CIDToFilename L c \<and>
     TrimSpace (CIDToFilename L c @ [CHR 0x0A]) = CIDToFilename L c \<and>
     CIDToFilename L c \<noteq> []"

definition readsBackNode :: "lib \<Rightarrow> NodeEnvelope \<Rightarrow> bool" where
  "readsBackNode L node \<longleftrightarrow>
     unmarshalNode L (nodeBytes L node) = Some node \<and>
     textOK L (ComputeCID L (nodeBytes L node))"


text \<open>The node that \<^verbatim>\<open>Ingest\<close> creates, in the words of the specification.\<close>

definition sourceNode :: "lib \<Rightarrow> string \<Rightarrow> string \<Rightarrow> time \<Rightarrow> NodeEnvelope" where
  "sourceNode L content format now =
     \<lparr> V = 1, ID = ''sha256:'' @ hexEncode (sha256 L content), Type = ''Source'',
       Content = Some content,
       Meta = Some [(''format'', JString format),
                    (''size_bytes'', JNumber (int (length content)))],
       Created = now, Modified = now, Prev = [], Deleted = False \<rparr>"

definition emptyRepo :: "string \<Rightarrow> Repository" where
  "emptyRepo did =
     \<lparr> Store = [], Refs = [], Links = noLinks, Search = NewSearchIndex,
       Commits = \<lparr> headFile = None, author = did \<rparr> \<rparr>"












section \<open>Mutations of a repository\<close>











section \<open>Inputs for evaluation\<close>

text \<open>
  A stand-in for the libraries, for evaluation on concrete inputs: a polynomial
  checksum, written as 32 digits, in place of the digest, hexadecimal text in place of base32 and base64,
  decimal numbers in place of time stamps, and JSON decoders that know no object (each
  evaluation adds the objects it reads).
\<close>

definition unhexDigit :: "char \<Rightarrow> nat option" where
  "unhexDigit c =
     (let n = (of_char c :: nat) in
      if 0x30 \<le> n \<and> n \<le> 0x39 then Some (n - 0x30)
      else if 0x61 \<le> n \<and> n \<le> 0x66 then Some (n - 0x57)
      else None)"

fun unhex :: "string \<Rightarrow> bytes option" where
  "unhex [] = Some []"
| "unhex [c] = None"
| "unhex (a # b # rest) =
     (case (unhexDigit a, unhexDigit b, unhex rest) of
        (Some x, Some y, Some r) \<Rightarrow> Some (char_of (16 * x + y) # r)
      | _ \<Rightarrow> None)"

definition checksum :: "bytes \<Rightarrow> bytes" where
  "checksum data =
     (let d = decimal (fold (\<lambda>c h. (h * 31 + of_char c) mod 1000003) data 7)
      in take 32 (replicate (32 - length d) (CHR ''0'') @ d))"

definition standIn :: lib where
  "standIn =
     \<lparr> sha256 = checksum,
       multibase32 = (\<lambda>c. CHR ''b'' # hexEncode c),
       decodeCid = (\<lambda>s. case s of [] \<Rightarrow> None
                          | c # h \<Rightarrow> if c = CHR ''b'' then unhex h else None),
       rfc3339 = decimal,
       base64 = hexEncode,
       formatFloat = decimal,
       unmarshalNode = (\<lambda>data. None),
       unmarshalCommit = (\<lambda>data. None),
       searchText = (\<lambda>nid node. map of_char (nid @ '' '' @ Type node)),
       tables = latin1 \<rparr>"

definition sampleAccess :: pairs where
  "sampleAccess = [(''n'', [(''a'', 2), (''b'', 1), (''d'', 4)])]"

definition sampleChange :: pairs where
  "sampleChange = [(''m'', []), (''n'', [(''b'', 1), (''c'', 2), (''a'', 1)])]"

text \<open>A chain of one commit that snapshots two refs.\<close>

definition loneCommit :: CommitObject where
  "loneCommit =
     \<lparr> commitV = 1, Parent = [], Timestamp = 5, commitRefs = [(''a'', ''x''), (''b'', ''y'')],
       commitLinks = [], Message = ''create b'' \<rparr>"

definition coChangeWindow :: int where
  "coChangeWindow = 3600000000000"

text \<open>
  A repository that holds one note, the tombstone that its soft delete writes, the
  node of an ingest, and libraries whose JSON decoder knows these envelopes.
\<close>

definition sampleNode :: NodeEnvelope where
  "sampleNode =
     \<lparr> V = 1, ID = ''note:a'', Type = ''Note'', Content = Some ''hello'', Meta = None,
       Created = 1, Modified = 1, Prev = [], Deleted = False \<rparr>"

definition sampleTomb :: NodeEnvelope where
  "sampleTomb =
     \<lparr> V = 1, ID = ''note:a'', Type = ''Note'', Content = None, Meta = None,
       Created = 1, Modified = 3, Prev = objName standIn (nodeBytes standIn sampleNode),
       Deleted = True \<rparr>"

definition sampleSource :: NodeEnvelope where
  "sampleSource = sourceNode standIn ''dedup content'' ''text'' 1"

text \<open>A decoder that finds, among the given envelopes, the one that the bytes serialize.\<close>

definition decodeAmong :: "lib \<Rightarrow> NodeEnvelope list \<Rightarrow> bytes \<Rightarrow> NodeEnvelope option" where
  "decodeAmong L nodes data = List.find (\<lambda>node. nodeBytes L node = data) nodes"

definition deleteLib :: lib where
  "deleteLib = standIn \<lparr> unmarshalNode := decodeAmong standIn [sampleNode, sampleTomb] \<rparr>"

definition ingestLib :: lib where
  "ingestLib = standIn \<lparr> unmarshalNode := decodeAmong standIn [sampleSource] \<rparr>"

definition noteBytes :: bytes where
  \<open>noteBytes = ''{"content":"68656c6c6f","created":"1","id":"note:a","modified":"1","type":"Note","v":1}''\<close>

definition tombBytes :: bytes where
  \<open>tombBytes = ''{"created":"1","deleted":true,"id":"note:a","modified":"3","prev":"b015512203030303030303030303030303030303030303030303030303030383833343133","type":"Note","v":1}''\<close>

definition sampleRepo :: Repository where
  "sampleRepo =
     \<lparr> Store = [(objName standIn (nodeBytes standIn sampleNode), nodeBytes standIn sampleNode)],
       Refs = [(''note__a'', objName standIn (nodeBytes standIn sampleNode))],
       Links = noLinks, Search = NewSearchIndex,
       Commits = \<lparr> headFile = None, author = testDID \<rparr> \<rparr>"















definition members :: "json \<Rightarrow> string list" where
  "members v = (case v of JObject val \<Rightarrow> map fst val | _ \<Rightarrow> [])"

section \<open>Canonical signing payload\<close>

lemma post_keys_valid:
  "toValidUTF8 ''v'' = ''v''" "toValidUTF8 ''type'' = ''type''"
  "toValidUTF8 ''content'' = ''content''" "toValidUTF8 ''author'' = ''author''"
  "toValidUTF8 ''refs'' = ''refs''" "toValidUTF8 ''tags'' = ''tags''"
  "toValidUTF8 ''timestamp'' = ''timestamp''"
  by code_simp+

lemma post_keys_marshal:
  \<open>marshalString ''v'' = ''"v"''\<close> \<open>marshalString ''type'' = ''"type"''\<close>
  \<open>marshalString ''content'' = ''"content"''\<close> \<open>marshalString ''author'' = ''"author"''\<close>
  \<open>marshalString ''refs'' = ''"refs"''\<close> \<open>marshalString ''tags'' = ''"tags"''\<close>
  \<open>marshalString ''timestamp'' = ''"timestamp"''\<close>
  by code_simp+

lemma post_keys_sorted:
  fixes a b c d e f g :: json
  shows "sort_key fst [(''v'', a), (''type'', b), (''content'', c), (''author'', d),
                       (''refs'', e), (''tags'', f), (''timestamp'', g)]
       = [(''author'', d), (''content'', c), (''refs'', e), (''tags'', f),
          (''timestamp'', g), (''type'', b), (''v'', a)]"
    and "sort_key fst [(''author'', d), (''content'', c), (''refs'', e), (''tags'', f),
          (''timestamp'', g), (''type'', b), (''v'', a)]
       = [(''author'', d), (''content'', c), (''refs'', e), (''tags'', f),
          (''timestamp'', g), (''type'', b), (''v'', a)]"
  by code_simp+

lemma generic_strings: "generic (stringsJSON xs) = stringsJSON (map toValidUTF8 xs)"
  by (simp add: stringsJSON_def comp_def)

lemma encode_strings: "canonicalEncode L (stringsJSON (map toValidUTF8 xs)) = jarr xs"
  by (simp add: stringsJSON_def jarr_def jstr_def [abs_def] comp_def)

lemma payload_form:
  \<open>signingPayload L p =
     Inr (''{"author":'' @ jstr (Author p) @
          '',"content":'' @ jstr (postContent p) @
          '',"refs":'' @ jarr (orEmpty (postRefs p)) @
          '',"tags":'' @ jarr (orEmpty (Tags p)) @
          '',"timestamp":'' @ jstr (postTimestamp p) @
          '',"type":'' @ jstr (postType p) @
          '',"v":'' @ marshalNumber L (postV p) @ ''}'')\<close>
  unfolding signingPayload_def CanonicalJSON_def Let_def
  by (simp add: post_keys_sorted post_keys_valid post_keys_marshal generic_strings encode_strings
        jstr_def orEmpty_def del: sort_key_simps)

lemma payload_vector:
  \<open>signingPayload L testPost =
     Inr ''{"author":"did:key:z6MkehRgf7yJbgaGfYsdoAsKdBPE3dj2CYhowQdcjqSJgvVd","content":"hello from test","refs":[],"tags":[],"timestamp":"2024-01-01T00:00:00Z","type":"post","v":2}''\<close>
  by code_simp

text \<open>
  Claim C2. For every post the signing payload is the canonical JSON of the mapping
  with exactly the keys author, content, refs, tags, timestamp, type, v, in this
  (sorted) order, with no white space between the tokens, without the signature, and
  with absent refs or tags written as the empty array; the test post canonicalizes
  byte for byte to the vector of the specification.
\<close>

theorem signing_payload_canonical:
  \<open>signingPayload L p =
     Inr (''{"author":'' @ jstr (Author p) @
          '',"content":'' @ jstr (postContent p) @
          '',"refs":'' @ jarr (orEmpty (postRefs p)) @
          '',"tags":'' @ jarr (orEmpty (Tags p)) @
          '',"timestamp":'' @ jstr (postTimestamp p) @
          '',"type":'' @ jstr (postType p) @
          '',"v":'' @ marshalNumber L (postV p) @ ''}'') \<and>
   orEmpty None = [] \<and> jarr [] = ''[]'' \<and>
   signingPayload L testPost =
     Inr ''{"author":"did:key:z6MkehRgf7yJbgaGfYsdoAsKdBPE3dj2CYhowQdcjqSJgvVd","content":"hello from test","refs":[],"tags":[],"timestamp":"2024-01-01T00:00:00Z","type":"post","v":2}''\<close>
  using payload_form [of L p] payload_vector [of L]
  by (simp add: orEmpty_def jarr_def)

section \<open>Tokenization\<close>

lemma splitAtEvery_nonempty [simp]: "splitAtEvery f s \<noteq> []"
  by (induction s) (auto split: list.splits)

lemma fieldsFrom_split:
  "fieldsFrom f cur s =
     filter (\<lambda>w. w \<noteq> []) ((cur @ hd (splitAtEvery f s)) # tl (splitAtEvery f s))"
proof (induction s arbitrary: cur)
  case Nil
  then show ?case by simp
next
  case (Cons r rs)
  show ?case
  proof (cases "f r")
    case True
    then show ?thesis using Cons.IH [of "[]"] by simp
  next
    case False
    then show ?thesis using Cons.IH [of "cur @ [r]"]
      by (cases "splitAtEvery f rs") simp_all
  qed
qed

lemma FieldsFunc_split: "FieldsFunc s f = filter (\<lambda>w. w \<noteq> []) (splitAtEvery f s)"
  unfolding FieldsFunc_def fieldsFrom_split
  by (cases "splitAtEvery f s") simp_all

lemma tokenLoop_keepFirst:
  "tokenLoop ws (set res) res =
     res @ filter (\<lambda>w. w \<notin> set res) (keepFirst (filter (\<lambda>w. 2 \<le> byteLen w) ws))"
proof (induction ws arbitrary: res)
  case Nil
  then show ?case by simp
next
  case (Cons w ws)
  show ?case
  proof (cases "byteLen w < 2")
    case True
    then show ?thesis using Cons.IH [of res] by simp
  next
    case long: False
    show ?thesis
    proof (cases "w \<in> set res")
      case True
      then have "filter (\<lambda>y. y \<notin> set res) (filter (\<lambda>y. y \<noteq> w) xs) =
                 filter (\<lambda>y. y \<notin> set res) xs" for xs
        by (induction xs) auto
      with True long show ?thesis using Cons.IH [of res] by simp
    next
      case False
      have "set (res @ [w]) = insert w (set res)" by simp
      then have "tokenLoop ws (insert w (set res)) (res @ [w]) =
                 (res @ [w]) @ filter (\<lambda>y. y \<notin> set (res @ [w]))
                    (keepFirst (filter (\<lambda>w. 2 \<le> byteLen w) ws))"
        using Cons.IH [of "res @ [w]"] by simp
      moreover have "filter (\<lambda>y. y \<notin> set (res @ [w])) xs =
                     filter (\<lambda>y. y \<notin> set res) (filter (\<lambda>y. y \<noteq> w) xs)" for xs
        by (induction xs) auto
      ultimately show ?thesis using False long by simp
    qed
  qed
qed

lemma tokenize_refines: "tokenize U text = tokenizeSpec byteLen U text"
proof -
  have "filter (\<lambda>w. 2 \<le> byteLen w) (filter (\<lambda>w. w \<noteq> []) xs) =
        filter (\<lambda>w. 2 \<le> byteLen w) xs" for xs
    by (induction xs) (auto simp: byteLen_def)
  then show ?thesis
    using tokenLoop_keepFirst [of _ "[]"]
    by (simp add: tokenize_def tokenizeSpec_def FieldsFunc_split Let_def)
qed

text \<open>
  Claim C6, as the code has it. Tokenization lowercases the input, splits it at every
  code point that is neither a letter nor a digit, drops every token whose UTF-8
  encoding is shorter than two bytes, and keeps the first occurrence of each remaining
  token; a token that is a single letter of two bytes (U+00E9) is kept.
\<close>

theorem tokenize_drops_short_in_bytes:
  "tokenize U text = tokenizeSpec byteLen U text \<and>
   tokenize latin1 [0xE9] = [[0xE9]]"
  using tokenize_refines [of U "text"]
  by (simp add: tokenize_def FieldsFunc_def ToLower_def IsLetter_def IsDigit_def byteLen_def
        runeLen_def latin1_def)

text \<open>
  The claim as stated measures a token in code points. The input of one code point
  U+00E9, a letter of two bytes, is a token of one code point that the code keeps.
\<close>

theorem tokenize_counterexample:
  "IsLetter latin1 0xE9 \<and> length [0xE9 :: rune] = 1 \<and> byteLen [0xE9] = 2 \<and>
   tokenize latin1 [0xE9] = [[0xE9]] \<and> tokenizeSpec length latin1 [0xE9] = []"
  by (simp add: tokenize_def tokenizeSpec_def FieldsFunc_def ToLower_def IsLetter_def
        IsDigit_def byteLen_def runeLen_def latin1_def)

section \<open>Relatedness ranking\<close>

lemma set_insertBy [simp]: "set (insertBy lt x xs) = insert x (set xs)"
  by (induction xs) auto

lemma set_sortSlice [simp]: "set (sortSlice lt xs) = set xs"
  by (induction xs) (auto simp: sortSlice_def)

lemma length_insertBy [simp]: "length (insertBy lt x xs) = Suc (length xs)"
  by (induction xs) auto

lemma length_sortSlice [simp]: "length (sortSlice lt xs) = length xs"
  by (induction xs) (auto simp: sortSlice_def)

lemma keys_insertBy: "distinct (map fst xs) \<Longrightarrow> fst x \<notin> fst ` set xs \<Longrightarrow> distinct (map fst (insertBy lt x xs))"
  by (induction xs) auto

lemma keys_sortSlice: "distinct (map fst xs) \<Longrightarrow> distinct (map fst (sortSlice lt xs))"
proof (induction xs)
  case Nil
  then show ?case by (simp add: sortSlice_def)
next
  case (Cons x xs)
  then have "distinct (map fst (sortSlice lt xs))" by simp
  moreover have "fst x \<notin> fst ` set (sortSlice lt xs)" using Cons.prems by simp
  ultimately have "distinct (map fst (insertBy lt x (sortSlice lt xs)))" by (rule keys_insertBy)
  then show ?case by (simp add: sortSlice_def)
qed

lemma scoreLess_trans: "scoreLess a b \<Longrightarrow> scoreLess b c \<Longrightarrow> scoreLess a c"
  by (auto simp: scoreLess_def split: if_splits)

lemma scoreLess_total: "fst a \<noteq> fst b \<Longrightarrow> \<not> scoreLess a b \<Longrightarrow> scoreLess b a"
  by (auto simp: scoreLess_def split: if_splits)

lemma sorted_insertBy:
  "sorted_wrt scoreLess xs \<Longrightarrow> fst x \<notin> fst ` set xs \<Longrightarrow> sorted_wrt scoreLess (insertBy scoreLess x xs)"
proof (induction xs)
  case Nil
  then show ?case by simp
next
  case (Cons y ys)
  show ?case
  proof (cases "scoreLess y x")
    case True
    then show ?thesis using Cons by auto
  next
    case False
    then have xy: "scoreLess x y" using Cons.prems(2) scoreLess_total [of y x] by auto
    then have "\<forall>z \<in> set ys. scoreLess x z" using Cons.prems(1) scoreLess_trans by auto
    with xy False Cons.prems(1) show ?thesis by simp
  qed
qed

lemma sorted_sortSlice:
  "distinct (map fst xs) \<Longrightarrow> sorted_wrt scoreLess (sortSlice scoreLess xs)"
proof (induction xs)
  case Nil
  then show ?case by (simp add: sortSlice_def)
next
  case (Cons x xs)
  then have "sorted_wrt scoreLess (sortSlice scoreLess xs)" by simp
  moreover have "fst x \<notin> fst ` set (sortSlice scoreLess xs)" using Cons.prems by simp
  ultimately have "sorted_wrt scoreLess (insertBy scoreLess x (sortSlice scoreLess xs))"
    by (rule sorted_insertBy)
  then show ?case by (simp add: sortSlice_def)
qed

lemma float64_exact: "0 \<le> n \<Longrightarrow> n \<le> 2 ^ 53 \<Longrightarrow> float64 n = n"
  by (simp add: float64_def roundMagnitude_def)

lemma fold_addScore:
  "distinct (map fst xs) \<Longrightarrow> distinct (map fst sc) \<Longrightarrow> 1 \<le> w \<Longrightarrow>
   (\<forall>x \<in> set xs. 0 \<le> snd x \<and> 0 \<le> look sc (fst x) \<and>
       look sc (fst x) + snd x * w \<le> 2 ^ 53) \<Longrightarrow>
   distinct (map fst (fold (addScore w) xs sc)) \<and>
   fst ` set (fold (addScore w) xs sc) = fst ` set sc \<union> fst ` set xs \<and>
   (\<forall>k. look (fold (addScore w) xs sc) k = look sc k + look xs k * w)"
proof (induction xs arbitrary: sc)
  case Nil
  then show ?case by (simp add: look_def)
next
  case (Cons x xs)
  let ?sc = "addScore w x sc"
  from Cons.prems(4) have x: "0 \<le> snd x" "0 \<le> look sc (fst x)"
    "look sc (fst x) + snd x * w \<le> 2 ^ 53" by simp_all
  have "snd x * 1 \<le> snd x * w" using x(1) Cons.prems(3) by (intro mult_left_mono)
  then have "snd x \<le> 2 ^ 53" using x(2,3) by simp
  then have e1: "float64 (snd x) = snd x" using x(1) by (rule float64_exact [rotated])
  have "0 \<le> snd x * w" using x(1) Cons.prems(3) by simp
  then have e2: "float64 (look sc (fst x) + snd x * w) = look sc (fst x) + snd x * w"
    using x(2,3) by (intro float64_exact) simp_all
  have sc: "?sc = AList.update (fst x) (look sc (fst x) + snd x * w) sc"
    using e2 by (simp add: addScore_def e1 look_def)
  have d: "distinct (map fst ?sc)" using Cons.prems(2) by (simp add: sc distinct_update)
  have k: "fst ` set ?sc = insert (fst x) (fst ` set sc)"
    unfolding sc by (simp flip: dom_map_of_conv_image_fst) (simp add: update_conv')
  have l: "look ?sc k = look sc k + (if k = fst x then snd x * w else 0)" for k
    unfolding sc by (simp add: look_def update_conv')
  have nx: "map_of xs (fst x) = None" using Cons.prems(1) by (simp add: map_of_eq_None_iff)
  have lx: "look (x # xs) k = (if k = fst x then snd x else look xs k)" for k
    using nx by (cases x) (auto simp: look_def)
  have away: "fst y \<noteq> fst x" if "y \<in> set xs" for y
  proof
    assume "fst y = fst x"
    with that have "fst x \<in> fst ` set xs" by (metis imageI)
    with Cons.prems(1) show False by simp
  qed
  have rest: "\<forall>y \<in> set xs. 0 \<le> snd y \<and> 0 \<le> look ?sc (fst y) \<and>
                look ?sc (fst y) + snd y * w \<le> 2 ^ 53"
    using Cons.prems(4) away by (simp add: l)
  have "look xs (fst x) = 0" using nx by (simp add: look_def)
  with Cons.IH [OF _ d Cons.prems(3) rest] Cons.prems(1) k l lx show ?case
    by (auto simp: algebra_simps)
qed

lemma look_entry: "distinct (map fst m) \<Longrightarrow> x \<in> set m \<Longrightarrow> look m (fst x) = snd x"
  by (cases x) (simp add: look_def)

lemma look_nonneg: "\<forall>x \<in> set m. 0 \<le> snd x \<Longrightarrow> 0 \<le> look m k"
proof (cases "map_of m k")
  case None
  then show ?thesis by (simp add: look_def)
next
  case (Some v)
  assume a: "\<forall>x \<in> set m. 0 \<le> snd x"
  from Some have "(k, v) \<in> set m" by (rule map_of_SomeD)
  with a have "0 \<le> snd (k, v)" by blast
  then show ?thesis using Some by (simp add: look_def)
qed


lemma countOf_look: "countOf P a b = look (bucket P a) b"
  by (simp add: countOf_def look_def)

lemma Related_zero:
  "RelatednessIndex_Related A C n 0 =
     map fst (sortSlice scoreLess (fold (addScore 2) (bucket C n) (fold (addScore 1) (bucket A n) [])))"
  by (simp add: RelatednessIndex_Related_def Let_def sortSlice_def)

lemma Related_limit:
  "RelatednessIndex_Related A C n limit =
     (if 0 < limit then take (nat limit) (RelatednessIndex_Related A C n 0)
      else RelatednessIndex_Related A C n 0)"
  by (auto simp: RelatednessIndex_Related_def Let_def sortSlice_def take_map)


text \<open>
  Claim C9. For every node ID and limit, \<^verbatim>\<open>Related\<close> returns the peers of the node in
  either matrix, each once, ordered by the score 1.0 times the co-access count plus
  2.0 times the co-change count, descending, ties by ID ascending, and cut to
  \<open>limit\<close> entries when \<open>limit\<close> is positive; limit 0 is no cap. The hypotheses:
  the maps of Go have one entry per key; the counts are not negative (they are counted
  up from zero); and the score of each peer is at most \<open>2^53\<close>, the range in which
  \<^verbatim>\<open>float64\<close> holds every integer and the sums of the code are exact.
\<close>

theorem related_ranking:
  assumes "distinct (map fst (bucket coAccess nodeID))"
      and "distinct (map fst (bucket coChange nodeID))"
      and "\<forall>x \<in> set (bucket coAccess nodeID). 0 \<le> snd x"
      and "\<forall>x \<in> set (bucket coChange nodeID). 0 \<le> snd x"
      and "\<forall>p \<in> fst ` set (bucket coAccess nodeID) \<union> fst ` set (bucket coChange nodeID).
             combined coAccess coChange nodeID p \<le> 2 ^ 53"
  shows "set (RelatednessIndex_Related coAccess coChange nodeID 0) =
           fst ` set (bucket coAccess nodeID) \<union> fst ` set (bucket coChange nodeID) \<and>
         distinct (RelatednessIndex_Related coAccess coChange nodeID 0) \<and>
         sorted_wrt (ranksBefore (combined coAccess coChange nodeID))
           (RelatednessIndex_Related coAccess coChange nodeID 0) \<and>
         RelatednessIndex_Related coAccess coChange nodeID limit =
           (if 0 < limit then take (nat limit) (RelatednessIndex_Related coAccess coChange nodeID 0)
            else RelatednessIndex_Related coAccess coChange nodeID 0)"
proof -
  let ?s1 = "fold (addScore 1) (bucket coAccess nodeID) []"
  let ?sc = "fold (addScore 2) (bucket coChange nodeID) ?s1"
  let ?res = "sortSlice scoreLess ?sc"
  have comb: "combined coAccess coChange nodeID p =
                look (bucket coAccess nodeID) p + look (bucket coChange nodeID) p * 2" for p
    by (simp add: combined_def countOf_look)
  have nnA: "0 \<le> look (bucket coAccess nodeID) p" for p using assms(3) by (rule look_nonneg)
  have nnC: "0 \<le> look (bucket coChange nodeID) p" for p using assms(4) by (rule look_nonneg)
  have b1: "\<forall>x \<in> set (bucket coAccess nodeID). 0 \<le> snd x \<and> 0 \<le> look [] (fst x) \<and>
              look [] (fst x) + snd x * 1 \<le> 2 ^ 53"
  proof
    fix x assume x: "x \<in> set (bucket coAccess nodeID)"
    then have "combined coAccess coChange nodeID (fst x) \<le> 2 ^ 53" using assms(5) by auto
    moreover have "look (bucket coAccess nodeID) (fst x) = snd x"
      using assms(1) x by (rule look_entry)
    ultimately have "snd x \<le> 2 ^ 53" using nnC [of "fst x"] by (simp add: comb)
    then show "0 \<le> snd x \<and> 0 \<le> look [] (fst x) \<and> look [] (fst x) + snd x * 1 \<le> 2 ^ 53"
      using assms(3) x by (simp add: look_def)
  qed
  have s1: "distinct (map fst ?s1)" "fst ` set ?s1 = fst ` set (bucket coAccess nodeID)"
    "\<And>k. look ?s1 k = look (bucket coAccess nodeID) k"
    using fold_addScore [OF assms(1) _ _ b1] by (simp_all add: look_def)
  have b2: "\<forall>x \<in> set (bucket coChange nodeID). 0 \<le> snd x \<and> 0 \<le> look ?s1 (fst x) \<and>
              look ?s1 (fst x) + snd x * 2 \<le> 2 ^ 53"
  proof
    fix x assume x: "x \<in> set (bucket coChange nodeID)"
    then have "combined coAccess coChange nodeID (fst x) \<le> 2 ^ 53" using assms(5) by auto
    moreover have "look (bucket coChange nodeID) (fst x) = snd x"
      using assms(2) x by (rule look_entry)
    ultimately show "0 \<le> snd x \<and> 0 \<le> look ?s1 (fst x) \<and> look ?s1 (fst x) + snd x * 2 \<le> 2 ^ 53"
      using assms(4) x nnA [of "fst x"] by (simp add: comb s1(3))
  qed
  have sc: "distinct (map fst ?sc)"
    "fst ` set ?sc = fst ` set (bucket coAccess nodeID) \<union> fst ` set (bucket coChange nodeID)"
    "\<And>k. look ?sc k = combined coAccess coChange nodeID k"
    using fold_addScore [OF assms(2) s1(1) _ b2] s1(2,3)
    by (simp_all add: combined_def countOf_look)
  have val: "snd x = combined coAccess coChange nodeID (fst x)" if "x \<in> set ?sc" for x
  proof -
    from that sc(1) have "map_of ?sc (fst x) = Some (snd x)" by simp
    then show ?thesis using sc(3) [of "fst x"] by (simp add: look_def)
  qed
  have "sorted_wrt scoreLess ?res" using sc(1) by (rule sorted_sortSlice)
  then have "sorted_wrt (\<lambda>x y. ranksBefore (combined coAccess coChange nodeID) (fst x) (fst y)) ?res"
  proof (rule sorted_wrt_mono_rel [rotated])
    fix x y assume "x \<in> set ?res" "y \<in> set ?res" "scoreLess x y"
    then show "ranksBefore (combined coAccess coChange nodeID) (fst x) (fst y)"
      using val [of x] val [of y] by (auto simp: scoreLess_def ranksBefore_def split: if_splits)
  qed
  then have sorted: "sorted_wrt (ranksBefore (combined coAccess coChange nodeID)) (map fst ?res)"
    by (simp add: sorted_wrt_map)
  have "distinct (map fst ?res)" using sc(1) by (rule keys_sortSlice)
  moreover have "set (map fst ?res) = fst ` set ?sc" by simp
  ultimately show ?thesis using sorted sc(2) Related_limit [of coAccess coChange nodeID limit]
    by (simp only: Related_zero)
qed


theorem related_ranking_witness:
  "distinct (map fst (bucket sampleAccess ''n'')) \<and>
   distinct (map fst (bucket sampleChange ''n'')) \<and>
   list_all (\<lambda>x. 0 \<le> snd x) (bucket sampleAccess ''n'') \<and>
   list_all (\<lambda>x. 0 \<le> snd x) (bucket sampleChange ''n'') \<and>
   list_all (\<lambda>p. combined sampleAccess sampleChange ''n'' p \<le> 2 ^ 53)
     (map fst (bucket sampleAccess ''n'') @ map fst (bucket sampleChange ''n'')) \<and>
   RelatednessIndex_Related sampleAccess sampleChange ''n'' 0 = [''a'', ''c'', ''d'', ''b''] \<and>
   sorted_wrt (ranksBefore (combined sampleAccess sampleChange ''n''))
     (RelatednessIndex_Related sampleAccess sampleChange ''n'' 0) \<and>
   RelatednessIndex_Related sampleAccess sampleChange ''n'' 2 = [''a'', ''c'']"
proof -
  have h1: "distinct (map fst (bucket sampleAccess ''n''))" by code_simp
  have h2: "distinct (map fst (bucket sampleChange ''n''))" by code_simp
  have b: "bucket sampleAccess ''n'' = [(''a'', 2), (''b'', 1), (''d'', 4)]"
    "bucket sampleChange ''n'' = [(''b'', 1), (''c'', 2), (''a'', 1)]"
    by code_simp+
  have h3: "list_all (\<lambda>x. 0 \<le> snd x) (bucket sampleAccess ''n'')" by (simp add: b)
  have h4: "list_all (\<lambda>x. 0 \<le> snd x) (bucket sampleChange ''n'')" by (simp add: b)
  have h5: "list_all (\<lambda>p. combined sampleAccess sampleChange ''n'' p \<le> 2 ^ 53)
     (map fst (bucket sampleAccess ''n'') @ map fst (bucket sampleChange ''n''))"
    by (simp add: b combined_def countOf_def)
  have e0: "RelatednessIndex_Related sampleAccess sampleChange ''n'' 0 = [''a'', ''c'', ''d'', ''b'']"
    by (simp add: Related_zero b addScore_def float64_def roundMagnitude_def sortSlice_def
        scoreLess_def)
  have "sorted_wrt (ranksBefore (combined sampleAccess sampleChange ''n''))
          (RelatednessIndex_Related sampleAccess sampleChange ''n'' 0) \<and>
        RelatednessIndex_Related sampleAccess sampleChange ''n'' 2 =
          take 2 (RelatednessIndex_Related sampleAccess sampleChange ''n'' 0)"
    using related_ranking [of sampleAccess "''n''" sampleChange 2] h1 h2 h3 h4 h5
    by (simp add: list_all_iff)
  then show ?thesis using h1 h2 h3 h4 h5 e0 by simp
qed

section \<open>Ref store: file names\<close>

lemma refFilename_Nil [simp]: "refFilename [] = []"
  by (simp add: refFilename_def ReplaceAll.simps)

lemma refFilename_Cons:
  "refFilename (c # cs) = (if c = CHR '':'' then ''__'' @ refFilename cs else c # refFilename cs)"
  by (simp add: refFilename_def ReplaceAll.simps [of "c # cs"])

lemma refID_Nil [simp]: "refIDFromFilename [] = []"
  by (simp add: refIDFromFilename_def ReplaceAll.simps)

lemma refID_pair: "refIDFromFilename (CHR ''_'' # CHR ''_'' # cs) = CHR '':'' # refIDFromFilename cs"
  by (simp add: refIDFromFilename_def ReplaceAll.simps [of "CHR ''_'' # CHR ''_'' # cs"])

lemma refID_other:
  assumes "\<not> prefix ''__'' (c # cs)"
  shows "refIDFromFilename (c # cs) = c # refIDFromFilename cs"
proof -
  have "ReplaceAll (c # cs) ''__'' '':'' =
          (if prefix ''__'' (c # cs)
           then '':'' @ ReplaceAll (drop (length ''__'') (c # cs)) ''__'' '':''
           else c # ReplaceAll cs ''__'' '':'')"
    by (subst ReplaceAll.simps) (simp del: prefix_code Sublist.prefix_Cons)
  with assms show ?thesis by (simp only: refIDFromFilename_def if_False)
qed

lemma refFilename_head:
  "prefix ''_'' (refFilename cs) \<Longrightarrow> prefix ''_'' cs \<or> prefix '':'' cs"
  by (cases cs) (auto simp: refFilename_Cons split: if_splits)

lemma ref_name_roundtrip:
  "\<not> sublist ''__'' s \<Longrightarrow> \<not> sublist ''_:'' s \<Longrightarrow> refIDFromFilename (refFilename s) = s"
proof (induction s)
  case Nil
  then show ?case by simp
next
  case (Cons c cs)
  from Cons.prems have tl: "\<not> sublist ''__'' cs" "\<not> sublist ''_:'' cs"
    and hd: "\<not> prefix ''__'' (c # cs)" "\<not> prefix ''_:'' (c # cs)"
    by (simp_all add: sublist_Cons_right)
  have IH: "refIDFromFilename (refFilename cs) = cs" using Cons.IH tl by simp
  show ?case
  proof (cases "c = CHR '':''")
    case True
    then show ?thesis by (simp add: refFilename_Cons refID_pair IH)
  next
    case False
    have "\<not> prefix ''__'' (c # refFilename cs)"
    proof
      assume p: "prefix ''__'' (c # refFilename cs)"
      then have c: "c = CHR ''_''" and "prefix ''_'' (refFilename cs)" by auto
      then have "prefix ''_'' cs \<or> prefix '':'' cs" using refFilename_head by blast
      with c hd show False by auto
    qed
    then show ?thesis using False by (simp add: refFilename_Cons refID_other IH)
  qed
qed

lemma elements_plain: "CHR ''/'' \<notin> set n \<Longrightarrow> elements n = [n]"
  by (induction n) auto

lemma Join_plain:
  "CHR ''/'' \<notin> set n \<Longrightarrow>
     Join n = (if n = [] \<or> n = ''.'' \<or> n = ''..'' then Dir else File n)"
  by (simp add: Join_def elements_plain)

lemma Join_valid: "validName n \<Longrightarrow> Join n = File n"
  by (simp add: Join_plain validName_def)

lemma refFilename_slash: "CHR ''/'' \<notin> set nid \<Longrightarrow> CHR ''/'' \<notin> set (refFilename nid)"
  by (induction nid) (auto simp: refFilename_Cons)

lemma Set_List:
  assumes "RefStore_Set L r nid c = Inr r'" and "CHR ''/'' \<notin> set nid"
  shows "refIDFromFilename (refFilename nid) \<in> set (RefStore_List r')"
proof -
  have "CHR ''/'' \<notin> set (refFilename nid)" using assms(2) by (rule refFilename_slash)
  with assms(1) have "r' = AList.update (refFilename nid) (multibase32 L c) r"
    by (auto simp: RefStore_Set_def WritePath_def WriteFile_def Join_plain split: if_splits)
  then have "refFilename nid \<in> set (map fst r')" by (simp add: update_keys)
  then have "refFilename nid \<in> set (ReadDir r')" by (simp add: ReadDir_def del: set_map)
  then show ?thesis unfolding RefStore_List_def by (metis imageI set_map)
qed


lemma a__b_name:
  "refFilename ''a__b'' = ''a__b''" "validName ''a__b''" "refIDFromFilename ''a__b'' = ''a:b''"
  "Join ''a__b'' = File ''a__b''"
  by code_simp+

text \<open>
  Claim C10, as the code has it. For every ID that contains no slash and neither
  \<^verbatim>\<open>__\<close> nor \<^verbatim>\<open>_:\<close>, a \<^verbatim>\<open>Set\<close> that succeeds followed by \<^verbatim>\<open>List\<close> reports the
  ID unchanged; for the ID \<^verbatim>\<open>a__b\<close>, \<^verbatim>\<open>List\<close> reports \<^verbatim>\<open>a:b\<close> instead: the
  encoding is not injective.
\<close>

theorem ref_roundtrip:
  "(CHR ''/'' \<notin> set nid \<and> \<not> sublist ''__'' nid \<and> \<not> sublist ''_:'' nid \<and>
    RefStore_Set L r nid c = Inr r'
      \<longrightarrow> nid \<in> set (RefStore_List r')) \<and>
   RefStore_Set L [] ''a__b'' c = Inr [(''a__b'', multibase32 L c)] \<and>
   RefStore_List [(''a__b'', multibase32 L c)] = [''a:b'']"
  using Set_List [of L r nid c r'] ref_name_roundtrip [of nid]
  by (auto simp: RefStore_Set_def WritePath_def WriteFile_def RefStore_List_def ReadDir_def
      a__b_name)

theorem ref_roundtrip_witness:
  "CHR ''/'' \<notin> set ''note:a_b'' \<and>
   \<not> sublist ''__'' ''note:a_b'' \<and> \<not> sublist ''_:'' ''note:a_b'' \<and>
   RefStore_Set standIn [] ''note:a_b'' [] = Inr [(''note__a_b'', ''b'')] \<and>
   ''note:a_b'' \<in> set (RefStore_List [(''note__a_b'', ''b'')])"
proof -
  have h0: "CHR ''/'' \<notin> set ''note:a_b''" by code_simp
  have h1: "\<not> sublist ''__'' ''note:a_b''" by code_simp
  have h2: "\<not> sublist ''_:'' ''note:a_b''" by code_simp
  have h3: "RefStore_Set standIn [] ''note:a_b'' [] = Inr [(''note__a_b'', ''b'')]" by code_simp
  show ?thesis
    using ref_roundtrip [of "''note:a_b''" standIn "[]" "[]" "[(''note__a_b'', ''b'')]"]
      h0 h1 h2 h3
    by blast
qed

text \<open>
  The claim as stated asks only for the absence of \<^verbatim>\<open>__\<close>. The ID \<^verbatim>\<open>_:\<close> has no
  \<^verbatim>\<open>__\<close>, is stored under the name \<^verbatim>\<open>___\<close>, and is listed as \<^verbatim>\<open>:_\<close>. The ID
  \<^verbatim>\<open>b/\<close> has none either; the path that \<^verbatim>\<open>filepath.Join\<close> cleans is the file
  \<^verbatim>\<open>b\<close>, and the ID is listed as \<^verbatim>\<open>b\<close>.
\<close>

theorem ref_roundtrip_counterexample:
  "\<not> sublist ''__'' ''_:'' \<and>
   RefStore_Set standIn [] ''_:'' [] = Inr [(''___'', ''b'')] \<and>
   RefStore_List [(''___'', ''b'')] = ['':_''] \<and>
   ''_:'' \<notin> set (RefStore_List [(''___'', ''b'')]) \<and>
   \<not> sublist ''__'' ''b/'' \<and>
   RefStore_Set standIn [] ''b/'' [] = Inr [(''b'', ''b'')] \<and>
   RefStore_List [(''b'', ''b'')] = [''b''] \<and>
   ''b/'' \<notin> set (RefStore_List [(''b'', ''b'')])"
  by code_simp

section \<open>Object store\<close>

lemma put_get:
  assumes wf: "wfStore L s" and cf: "collisionFree L (insert b (snd ` set s))"
      and put: "ObjectStore_Put L s b = Inr (c, s')"
  shows "ObjectStore_Get L s' c = Inr b \<and> c = ComputeCID L b \<and>
         c = [CHR 0x01, CHR 0x55, CHR 0x12, CHR 0x20] @ sha256 L b"
proof (cases "Stat s (objName L b)")
  case True
  then obtain d where d: "map_of s (objName L b) = Some d" by (auto simp: Stat_def)
  then have mem: "(objName L b, d) \<in> set s" by (rule map_of_SomeD)
  with wf have "objName L b = objName L d" by (auto simp: wfStore_def)
  moreover from mem have "d \<in> snd ` set s" by force
  ultimately have "d = b" using cf by (auto simp: collisionFree_def inj_on_def)
  with d True put show ?thesis
    by (auto simp: ObjectStore_Put_def ObjectStore_Get_def ReadFile_def objName_def Let_def
        ComputeCID_def)
next
  case False
  with put show ?thesis
    by (auto simp: ObjectStore_Put_def ObjectStore_Get_def ReadFile_def objName_def Let_def
        ComputeCID_def SafeWrite_def WriteFile_def update_conv' split: if_splits)
qed

text \<open>
  Claim C4. For every byte sequence \<open>b\<close>, a \<^verbatim>\<open>Put\<close> of \<open>b\<close> that returns a CID
  returns the CID computed from \<open>b\<close> alone, the CIDv1 header (version 1, codec raw)
  before the SHA-256 multihash of \<open>b\<close>, and \<^verbatim>\<open>Get\<close> of that CID yields \<open>b\<close>. The
  store is one that \<^verbatim>\<open>Put\<close> has filled (every object under the name of its CID), and
  the hash does not collide on \<open>b\<close> and the objects stored.
\<close>

theorem put_then_get:
  assumes "wfStore L s"
      and "collisionFree L (insert b (snd ` set s))"
      and "ObjectStore_Put L s b = Inr (c, s')"
  shows "ObjectStore_Get L s' c = Inr b \<and> c = ComputeCID L b \<and>
         c = [CHR 0x01, CHR 0x55, CHR 0x12, CHR 0x20] @ sha256 L b"
  using assms by (rule put_get)

theorem put_then_get_witness:
  "wfStore standIn [(objName standIn ''world'', ''world'')] \<and>
   collisionFree standIn (insert ''hello'' (snd ` set [(objName standIn ''world'', ''world'')])) \<and>
   ObjectStore_Put standIn [(objName standIn ''world'', ''world'')] ''hello'' =
     Inr (ComputeCID standIn ''hello'',
          [(objName standIn ''world'', ''world''), (objName standIn ''hello'', ''hello'')]) \<and>
   ObjectStore_Get standIn
     [(objName standIn ''world'', ''world''), (objName standIn ''hello'', ''hello'')]
     (ComputeCID standIn ''hello'') = Inr ''hello''"
proof -
  have h1: "wfStore standIn [(objName standIn ''world'', ''world'')]"
    by (simp add: wfStore_def)
  have "objName standIn ''hello'' \<noteq> objName standIn ''world''" by code_simp
  then have h2: "collisionFree standIn
              (insert ''hello'' (snd ` set [(objName standIn ''world'', ''world'')]))"
    by (simp add: collisionFree_def)
  have h3: "ObjectStore_Put standIn [(objName standIn ''world'', ''world'')] ''hello'' =
     Inr (ComputeCID standIn ''hello'',
          [(objName standIn ''world'', ''world''), (objName standIn ''hello'', ''hello'')])"
    by code_simp
  have g: "ObjectStore_Get standIn
     [(objName standIn ''world'', ''world''), (objName standIn ''hello'', ''hello'')]
     (ComputeCID standIn ''hello'') = Inr ''hello''"
    using put_then_get [OF h1 h2 h3] by (rule conjunct1)
  from h1 h2 h3 g show ?thesis by (intro conjI)
qed

section \<open>Commit objects\<close>

text \<open>
  Claim C1, which the code does not meet. The JSON object of a commit has no member
  \<^verbatim>\<open>author\<close>, whatever the author of the commit log: the first commit of a log whose
  author is the test DID serializes to the bytes below.
\<close>

theorem commit_object_has_no_author:
  \<open>''author'' \<notin> set (members (commitJSON L (buildCommit L cl refs links message now))) \<and>
   commitBytes L
     (buildCommit L \<lparr> headFile = None, author = testDID \<rparr> [] noLinks ''create a'' now) =
     ''{"links":null,"message":"create a","refs":{},"timestamp":'' @ jstr (rfc3339 L now) @
     '',"v":1}''\<close>
proof -
  have \<open>commitBytes L
     (buildCommit L \<lparr> headFile = None, author = testDID \<rparr> [] noLinks ''create a'' now) =
     ''{"links":null,"message":"create a","refs":{},"timestamp":'' @ jstr (rfc3339 L now) @
     '',"v":1}''\<close>
    unfolding jstr_def by code_simp simp
  then show ?thesis by (simp add: commitJSON_def members_def)
qed

section \<open>Co-change index\<close>

text \<open>
  Claim C7, which the code does not meet for a chain of one commit. \<^verbatim>\<open>Build\<close> returns
  before it looks at a chain of fewer than two commits: the two refs of the lone commit
  are not paired, while the steps behind the early return would pair them.
\<close>

theorem lone_commit_not_paired:
  "buildFrom coChangeWindow [] [loneCommit] = [] \<and>
   firstEvent [loneCommit] = [\<lparr> ts = 5, changed = [''a'', ''b''] \<rparr>] \<and>
   windows coChangeWindow [] [] 0 (firstEvent [loneCommit]) =
     [(''a'', [(''b'', 1)]), (''b'', [(''a'', 1)])]"
  by code_simp

section \<open>Repository\<close>

lemma CanonicalJSON_node [simp]: "CanonicalJSON L (nodeJSON L node) = Inr (nodeBytes L node)"
  by (simp add: CanonicalJSON_def nodeBytes_def)

lemma CanonicalJSON_commit [simp]: "CanonicalJSON L (commitJSON L co) = Inr (commitBytes L co)"
  by (simp add: CanonicalJSON_def commitBytes_def)

lemma Put_cid: "ObjectStore_Put L s b = Inr (c, s') \<Longrightarrow> c = ComputeCID L b"
  by (auto simp: ObjectStore_Put_def Let_def split: if_splits sum.splits)

lemma Put_keeps:
  assumes "ObjectStore_Put L s b = Inr (c, s')" and "map_of s n = Some d"
  shows "map_of s' n = Some d"
  using assms
  by (auto simp: ObjectStore_Put_def Let_def SafeWrite_def WriteFile_def Stat_def update_conv'
      split: if_splits)

lemma Put_stores:
  assumes "wfStore L s" and "collisionFree L (insert b (snd ` set s))"
      and "ObjectStore_Put L s b = Inr (c, s')"
  shows "map_of s' (objName L b) = Some b"
  using put_get [OF assms]
  by (auto simp: ObjectStore_Get_def ReadFile_def objName_def split: option.splits)






lemma commit_keeps:
  "Refs (commit L now msg r) = Refs r" "Search (commit L now msg r) = Search r"
  "Links (commit L now msg r) = Links r"
  "map_of (Store r) n = Some d \<Longrightarrow> map_of (Store (commit L now msg r)) n = Some d"
  by (auto simp: commit_def CommitLog_Commit_def Let_def split: sum.splits dest: Put_keeps)

lemma Set_stores:
  "RefStore_Set L refs nid c = Inr refs' \<Longrightarrow>
     \<exists>n. Join (refFilename nid) = File n \<and> map_of refs' n = Some (CIDToFilename L c)"
  by (auto simp: RefStore_Set_def WritePath_def WriteFile_def CIDToFilename_def update_conv'
      split: if_splits target.splits)

lemma dropFrom_gone: "dropFrom m nid k = Some nids \<Longrightarrow> nid \<notin> nids"
  by (auto simp: dropFrom_def split: option.splits if_splits)


lemma putNode_ok:
  assumes "putNode L r nid node = (None, r1)"
      and "wfStore L (Store r)"
      and "collisionFree L (insert (nodeBytes L node) (snd ` set (Store r)))"
  shows "\<exists>n. Join (refFilename nid) = File n \<and>
             map_of (Refs r1) n = Some (objName L (nodeBytes L node))"
    and "map_of (Store r1) (objName L (nodeBytes L node)) = Some (nodeBytes L node)"
    and "Search r1 = Search r" and "Links r1 = Links r" and "Commits r1 = Commits r"
proof -
  from assms(1) obtain c store' refs' where
    put: "ObjectStore_Put L (Store r) (nodeBytes L node) = Inr (c, store')" and
    set: "RefStore_Set L (Refs r) nid c = Inr refs'" and
    r1: "r1 = r \<lparr> Store := store', Refs := refs' \<rparr>"
    by (auto simp: putNode_def split: sum.splits prod.splits)
  from put have c: "c = ComputeCID L (nodeBytes L node)" by (rule Put_cid)
  show "\<exists>n. Join (refFilename nid) = File n \<and>
          map_of (Refs r1) n = Some (objName L (nodeBytes L node))"
    using Set_stores [OF set] r1 c by (simp add: objName_def)
  show "map_of (Store r1) (objName L (nodeBytes L node)) = Some (nodeBytes L node)"
    using Put_stores [OF assms(2,3) put] r1 by simp
  show "Search r1 = Search r" "Links r1 = Links r" "Commits r1 = Commits r"
    using r1 by simp_all
qed

lemma getNodeEnvelope_read:
  assumes "Join (refFilename nid) = File n"
      and "map_of (Refs r) n = Some (objName L (nodeBytes L node))"
      and "map_of (Store r) (objName L (nodeBytes L node)) = Some (nodeBytes L node)"
      and "readsBackNode L node"
  shows "getNodeEnvelope L r nid = Inr node"
  using assms
  by (simp add: getNodeEnvelope_def RefStore_Get_def ReadPath_def ReadFile_def
      ObjectStore_Get_def readsBackNode_def textOK_def objName_def)

lemma getNodeEnvelope_ref:
  "getNodeEnvelope L r nid = Inr node \<Longrightarrow> \<exists>c. RefStore_Get L (Refs r) nid = Inr c"
  by (auto simp: getNodeEnvelope_def split: sum.splits)

lemma Put_succeeds:
  "validName (objName L b) \<Longrightarrow> \<exists>c s'. ObjectStore_Put L s b = Inr (c, s')"
  by (auto simp: ObjectStore_Put_def Let_def SafeWrite_def WriteFile_def objName_def)

lemma Set_succeeds:
  "validName (refFilename nid) \<Longrightarrow> \<exists>refs'. RefStore_Set L refs nid c = Inr refs'"
  by (auto simp: RefStore_Set_def WritePath_def WriteFile_def Join_valid)

lemma putNode_succeeds:
  assumes "validName (objName L (nodeBytes L node))" and "validName (refFilename nid)"
  shows "\<exists>r1. putNode L r nid node = (None, r1)"
proof -
  from Put_succeeds [OF assms(1)] obtain c s' where
    "ObjectStore_Put L (Store r) (nodeBytes L node) = Inr (c, s')" by blast
  moreover from Set_succeeds [OF assms(2)] obtain refs' where
    "RefStore_Set L (Refs r) nid c = Inr refs'" by blast
  ultimately show ?thesis by (simp add: putNode_def)
qed

lemma DeleteNode_succeeds:
  assumes "getNodeEnvelope L r nid = Inr current"
      and "validName (objName L (nodeBytes L (tombstone L r nid current now)))"
      and "validName (refFilename nid)"
  shows "DeleteNode L now cnow nid False r = (None, snd (DeleteNode L now cnow nid False r))"
proof -
  from putNode_succeeds [OF assms(2,3)] obtain r1 where
    "putNode L r nid (tombstone L r nid current now) = (None, r1)" by blast
  with assms(1) show ?thesis by (simp add: DeleteNode_def)
qed

lemma hexDigit_in: "hexDigit n \<in> set ''0123456789abcdef''"
proof -
  have "n mod 16 < length ''0123456789abcdef''" by simp
  then show ?thesis unfolding hexDigit_def by (rule nth_mem)
qed

lemma hexEncode_chars: "set (hexEncode bs) \<subseteq> set ''0123456789abcdef''"
  unfolding hexEncode_def using hexDigit_in by (induction bs) auto

lemma length_hexEncode: "length (hexEncode bs) = 2 * length bs"
  by (induction bs) (auto simp: hexEncode_def)

text \<open>The stand-in libraries keep what the libraries owe.\<close>

lemma unhexDigit_hexDigit: "unhexDigit (hexDigit k) = Some (k mod 16)"
proof -
  have "\<forall>i \<in> {0..<16}. unhexDigit (''0123456789abcdef'' ! i) = Some i" by code_simp
  moreover have "k mod 16 \<in> {0..<16}" by simp
  ultimately show ?thesis unfolding hexDigit_def by blast
qed

lemma unhex_hexEncode: "unhex (hexEncode c) = Some c"
proof (induction c)
  case Nil
  then show ?case by (simp add: hexEncode_def)
next
  case (Cons b bs)
  let ?n = "of_char b :: nat"
  have n: "?n < 256" by simp
  have "hexEncode (b # bs) = hexDigit (?n div 16) # hexDigit ?n # hexEncode bs"
    by (simp add: hexEncode_def)
  moreover have "?n div 16 < 16" using n by linarith
  then have "?n div 16 mod 16 = ?n div 16" by simp
  moreover have "16 * (?n div 16) + ?n mod 16 = ?n" by simp
  ultimately show ?case using Cons.IH by (simp add: unhexDigit_hexDigit hexEncode_def)
qed

lemma dropWhile_hd: "xs \<noteq> [] \<Longrightarrow> \<not> P (hd xs) \<Longrightarrow> dropWhile P xs = xs"
  by (cases xs) auto

lemma TrimSpace_id:
  assumes "s \<noteq> []" "\<not> isSpace (hd s)" "\<not> isSpace (last s)"
  shows "TrimSpace s = s" and "TrimSpace (s @ [CHR 0x0A]) = s"
proof -
  have front: "dropWhile isSpace s = s" using assms(1,2) by (rule dropWhile_hd)
  have "rev s \<noteq> []" "\<not> isSpace (hd (rev s))" using assms(1,3) by (simp_all add: hd_rev)
  then have rear: "dropWhile isSpace (rev s) = rev s" by (rule dropWhile_hd)
  show "TrimSpace s = s" by (simp add: TrimSpace_def front rear)
  have "hd (s @ [CHR 0x0A]) = hd s" using assms(1) by simp
  then have front': "dropWhile isSpace (s @ [CHR 0x0A]) = s @ [CHR 0x0A]"
    using assms(2) by (intro dropWhile_hd) simp_all
  have "isSpace (CHR 0x0A)" by (simp add: isSpace_def)
  then show "TrimSpace (s @ [CHR 0x0A]) = s" by (simp add: TrimSpace_def front' rear)
qed

lemma hex_not_space: "c \<in> set ''0123456789abcdef'' \<Longrightarrow> \<not> isSpace c"
  by (auto simp: isSpace_def)

lemma hexText_ok:
  assumes "multibase32 L = (\<lambda>c. CHR ''b'' # hexEncode c)"
      and "decodeCid L = (\<lambda>s. case s of [] \<Rightarrow> None | c # h \<Rightarrow> if c = CHR ''b'' then unhex h else None)"
  shows "textOK L c"
proof -
  let ?t = "CHR ''b'' # hexEncode c"
  have "\<not> isSpace (hd ?t)" by (simp add: isSpace_def)
  moreover have "\<not> isSpace (last ?t)"
  proof (cases "hexEncode c = []")
    case True then show ?thesis by (simp add: isSpace_def)
  next
    case False
    then have "last ?t \<in> set (hexEncode c)" by simp
    then show ?thesis using hexEncode_chars hex_not_space by blast
  qed
  ultimately have "TrimSpace ?t = ?t" "TrimSpace (?t @ [CHR 0x0A]) = ?t"
    using TrimSpace_id [of ?t] by simp_all
  then show ?thesis using assms by (simp add: textOK_def CIDToFilename_def unhex_hexEncode)
qed

lemma length_checksum: "length (checksum data) = 32"
  by (simp add: checksum_def Let_def)

lemma hexName_valid:
  assumes "multibase32 L = (\<lambda>c. CHR ''b'' # hexEncode c)" and "sha256 L = checksum"
  shows "validName (objName L data)"
proof -
  let ?c = "ComputeCID L data"
  have len: "length (hexEncode ?c) = 72" using assms(2) by (simp add: length_hexEncode ComputeCID_def length_checksum)
  have "CHR ''/'' \<notin> set (hexEncode ?c)" "CHR 0x00 \<notin> set (hexEncode ?c)"
    using hexEncode_chars [of ?c] by auto
  then show ?thesis using assms(1) len by (simp add: validName_def objName_def CIDToFilename_def)
qed

lemma sample_note_bytes: "nodeBytes standIn sampleNode = noteBytes" by code_simp
lemma sample_tomb_bytes: "nodeBytes standIn sampleTomb = tombBytes" by code_simp
lemma sample_note_sum: "checksum noteBytes = ''00000000000000000000000000883413''" by code_simp
lemma sample_tomb_sum: "checksum tombBytes = ''00000000000000000000000000110353''" by code_simp

lemma canonicalEncode_lib:
  assumes "formatFloat L' = formatFloat L"
  shows "canonicalEncode L' v = canonicalEncode L v"
proof (induction v)
  case (JArray xs)
  then have "map (canonicalEncode L') xs = map (canonicalEncode L) xs" by (intro map_cong) auto
  then show ?case by (simp only: canonicalEncode.simps)
next
  case (JObject val)
  have "map (\<lambda>kv. marshalString (fst kv) @ '':'' @ canonicalEncode L' (snd kv)) (sort_key fst val) =
        map (\<lambda>kv. marshalString (fst kv) @ '':'' @ canonicalEncode L (snd kv)) (sort_key fst val)"
  proof (intro map_cong refl)
    fix kv assume "kv \<in> set (sort_key fst val)"
    then have mem: "kv \<in> set val" by simp
    have "snd kv \<in> Basic_BNFs.snds kv" by (cases kv) simp
    with mem have "canonicalEncode L' (snd kv) = canonicalEncode L (snd kv)"
      by (rule JObject.IH)
    then show "marshalString (fst kv) @ '':'' @ canonicalEncode L' (snd kv) =
               marshalString (fst kv) @ '':'' @ canonicalEncode L (snd kv)" by simp
  qed
  then show ?case by (simp only: canonicalEncode.simps)
qed (simp_all add: marshalNumber_def assms)

lemma nodeBytes_lib:
  assumes "formatFloat L' = formatFloat L" "base64 L' = base64 L" "rfc3339 L' = rfc3339 L"
  shows "nodeBytes L' node = nodeBytes L node"
proof -
  have "nodeJSON L' node = nodeJSON L node" by (simp add: nodeJSON_def assms split: option.splits)
  then show ?thesis by (simp only: nodeBytes_def canonicalEncode_lib [OF assms(1)])
qed

lemma hexName_inj:
  assumes "multibase32 L = (\<lambda>c. CHR ''b'' # hexEncode c)"
      and "objName L x = objName L y"
  shows "sha256 L x = sha256 L y"
proof -
  from assms have "hexEncode (ComputeCID L x) = hexEncode (ComputeCID L y)"
    by (simp add: objName_def CIDToFilename_def)
  then have "unhex (hexEncode (ComputeCID L x)) = unhex (hexEncode (ComputeCID L y))" by simp
  then show ?thesis by (simp add: unhex_hexEncode ComputeCID_def)
qed

lemma deleteLib_fields:
  "multibase32 deleteLib = (\<lambda>c. CHR ''b'' # hexEncode c)"
  "decodeCid deleteLib = (\<lambda>s. case s of [] \<Rightarrow> None | c # h \<Rightarrow> if c = CHR ''b'' then unhex h else None)"
  "sha256 deleteLib = checksum"
  "nodeBytes deleteLib node = nodeBytes standIn node"
  "unmarshalNode deleteLib = decodeAmong standIn [sampleNode, sampleTomb]"
  by (simp_all add: deleteLib_def standIn_def nodeBytes_lib)

lemma objName_lib:
  "multibase32 L' = multibase32 L \<Longrightarrow> sha256 L' = sha256 L \<Longrightarrow> objName L' data = objName L data"
  by (simp add: objName_def CIDToFilename_def ComputeCID_def)

lemma standIn_fields:
  "multibase32 standIn = (\<lambda>c. CHR ''b'' # hexEncode c)" "sha256 standIn = checksum"
  by (simp_all add: standIn_def)

lemma ingestLib_fields:
  "multibase32 ingestLib = (\<lambda>c. CHR ''b'' # hexEncode c)"
  "decodeCid ingestLib = (\<lambda>s. case s of [] \<Rightarrow> None | c # h \<Rightarrow> if c = CHR ''b'' then unhex h else None)"
  "sha256 ingestLib = checksum"
  "nodeBytes ingestLib node = nodeBytes standIn node"
  "unmarshalNode ingestLib = decodeAmong standIn [sampleSource]"
  by (simp_all add: ingestLib_def standIn_def nodeBytes_lib)

text \<open>
  Claim C5. After a soft delete of an existing node: \<^verbatim>\<open>GetNode\<close> fails (the node is
  deleted); the ref still exists; the envelope read through the ref from the object
  store is deleted, has the type, the metadata and the creation time of the envelope
  it replaces, no content, and as \<^verbatim>\<open>prev\<close> the textual CID the ref held before; and
  the ID is in no set of the search index. The hypotheses are those of the object
  store (a store filled by \<^verbatim>\<open>Put\<close>, no collision with the tombstone) and of the
  libraries (the tombstone reads back).
\<close>

theorem soft_delete:
  assumes cur: "getNodeEnvelope L r nid = Inr current"
      and del: "DeleteNode L now cnow nid False r = (None, r')"
      and wf: "wfStore L (Store r)"
      and cf: "collisionFree L (insert (nodeBytes L (tombstone L r nid current now))
                                 (snd ` set (Store r)))"
      and rb: "readsBackNode L (tombstone L r nid current now)"
  shows "GetNode L r' nid = Inl (NodeDeleted nid) \<and>
         RefStore_Has (Refs r') nid \<and>
         (\<exists>t c0. getNodeEnvelope L r' nid = Inr t \<and> Deleted t \<and> Type t = Type current \<and>
                 Meta t = Meta current \<and> Created t = Created current \<and> Content t = None \<and>
                 RefStore_Get L (Refs r) nid = Inr c0 \<and> Prev t = CIDToFilename L c0) \<and>
         (\<forall>k nids. index (Search r') k = Some nids \<longrightarrow> nid \<notin> nids) \<and>
         (\<forall>k nids. types (Search r') k = Some nids \<longrightarrow> nid \<notin> nids)"
proof -
  let ?t = "tombstone L r nid current now"
  from del cur obtain r1 where
    pn: "putNode L r nid ?t = (None, r1)" and
    r': "r' = commit L cnow (''delete '' @ nid) (r1 \<lparr> Search := RemoveNode (Search r1) nid \<rparr>)"
    by (auto simp: DeleteNode_def split: prod.splits option.splits)
  note ok = putNode_ok [OF pn wf cf]
  from ok(1) obtain n where jn: "Join (refFilename nid) = File n"
    and "map_of (Refs r1) n = Some (objName L (nodeBytes L ?t))" by blast
  then have ref: "map_of (Refs r') n = Some (objName L (nodeBytes L ?t))"
    using r' by (simp add: commit_keeps)
  have obj: "map_of (Store r') (objName L (nodeBytes L ?t)) = Some (nodeBytes L ?t)"
    using ok(2) r' by (simp add: commit_keeps)
  have env: "getNodeEnvelope L r' nid = Inr ?t"
    using jn ref obj rb by (rule getNodeEnvelope_read)
  from getNodeEnvelope_ref [OF cur] obtain c0 where c0: "RefStore_Get L (Refs r) nid = Inr c0" ..
  then have prev: "Prev ?t = CIDToFilename L c0" by (simp add: tombstone_def prevOf_def)
  have srch: "Search r' = RemoveNode (Search r) nid" using r' ok(3) by (simp add: commit_keeps)
  have "GetNode L r' nid = Inl (NodeDeleted nid)"
    using env by (simp add: GetNode_def tombstone_def)
  moreover have "RefStore_Has (Refs r') nid"
    using jn ref by (simp add: RefStore_Has_def StatPath_def Stat_def)
  moreover have "Deleted ?t \<and> Type ?t = Type current \<and> Meta ?t = Meta current \<and>
                 Created ?t = Created current \<and> Content ?t = None"
    by (simp add: tombstone_def)
  ultimately show ?thesis using env c0 prev srch
    by (auto simp: RemoveNode_def dest: dropFrom_gone)
qed



theorem soft_delete_witness:
  "getNodeEnvelope deleteLib sampleRepo ''note:a'' = Inr sampleNode \<and>
   fst (DeleteNode deleteLib 3 4 ''note:a'' False sampleRepo) = None \<and>
   GetNode deleteLib (snd (DeleteNode deleteLib 3 4 ''note:a'' False sampleRepo)) ''note:a'' =
     Inl (NodeDeleted ''note:a'') \<and>
   RefStore_Has (Refs (snd (DeleteNode deleteLib 3 4 ''note:a'' False sampleRepo))) ''note:a'' \<and>
   (\<exists>t. getNodeEnvelope deleteLib
           (snd (DeleteNode deleteLib 3 4 ''note:a'' False sampleRepo)) ''note:a'' = Inr t \<and>
        Deleted t \<and> Type t = ''Note'' \<and> Content t = None)"
proof -
  note f = deleteLib_fields
  let ?r' = "snd (DeleteNode deleteLib 3 4 ''note:a'' False sampleRepo)"
  have ok: "textOK deleteLib c" for c using f(1,2) by (rule hexText_ok)
  have on: "objName deleteLib data = objName standIn data" for data
    by (rule objName_lib) (simp_all add: f standIn_fields)
  have name: "refFilename ''note:a'' = ''note__a''" "validName ''note__a''"
    "Join ''note__a'' = File ''note__a''" by code_simp+
  have ne: "noteBytes \<noteq> tombBytes" by (simp add: noteBytes_def tombBytes_def)
  have sums: "checksum tombBytes \<noteq> checksum noteBytes"
    by (simp add: sample_note_sum sample_tomb_sum)
  have rbN: "readsBackNode deleteLib sampleNode"
    by (simp add: readsBackNode_def ok f decodeAmong_def)
  have rbT: "readsBackNode deleteLib sampleTomb"
    using ne by (simp add: readsBackNode_def ok f decodeAmong_def sample_note_bytes sample_tomb_bytes)
  have cur: "getNodeEnvelope deleteLib sampleRepo ''note:a'' = Inr sampleNode"
    by (rule getNodeEnvelope_read [where n = "''note__a''"])
      (simp_all add: sampleRepo_def name on f rbN)
  have tomb: "tombstone deleteLib sampleRepo ''note:a'' sampleNode 3 = sampleTomb"
    using ok [unfolded textOK_def]
    by (simp add: tombstone_def prevOf_def RefStore_Get_def ReadPath_def ReadFile_def
        sampleRepo_def name
        sampleNode_def sampleTomb_def flip: on) (simp add: objName_def)
  have wf: "wfStore deleteLib (Store sampleRepo)"
    by (simp add: wfStore_def sampleRepo_def on)
  have "objName deleteLib tombBytes \<noteq> objName deleteLib noteBytes"
    using hexName_inj [OF f(1), of tombBytes noteBytes] sums by (auto simp: f)
  then have "collisionFree deleteLib (insert tombBytes {noteBytes})"
    using ne by (simp add: collisionFree_def)
  then have cf: "collisionFree deleteLib
      (insert (nodeBytes deleteLib (tombstone deleteLib sampleRepo ''note:a'' sampleNode 3))
         (snd ` set (Store sampleRepo)))"
    unfolding tomb f(4) sample_tomb_bytes by (simp add: sampleRepo_def sample_note_bytes)
  have del: "DeleteNode deleteLib 3 4 ''note:a'' False sampleRepo = (None, ?r')"
    using cur
  proof (rule DeleteNode_succeeds)
    show "validName (objName deleteLib
            (nodeBytes deleteLib (tombstone deleteLib sampleRepo ''note:a'' sampleNode 3)))"
      using f(1,3) by (rule hexName_valid)
    show "validName (refFilename ''note:a'')" by (simp add: name)
  qed
  have rb: "readsBackNode deleteLib (tombstone deleteLib sampleRepo ''note:a'' sampleNode 3)"
    using rbT by (simp add: tomb)
  have "Type sampleNode = ''Note''" by (simp add: sampleNode_def)
  moreover have "fst (DeleteNode deleteLib 3 4 ''note:a'' False sampleRepo) = None"
    using del by (metis fst_conv)
  ultimately show ?thesis using soft_delete [OF cur del wf cf rb] cur
    by auto
qed

lemma refFilename_append: "refFilename (a @ b) = refFilename a @ refFilename b"
  by (induction a) (auto simp: refFilename_Cons)

lemma refFilename_plain: "CHR '':'' \<notin> set s \<Longrightarrow> refFilename s = s"
  by (induction s) (auto simp: refFilename_Cons)

lemma sublist_needs_underscore: "sublist (CHR ''_'' # x) s \<Longrightarrow> CHR ''_'' \<in> set s"
  by (auto simp: sublist_def)

lemma ingest_name:
  assumes "length (sha256 L content) = 32"
  shows "refFilename (ingestID L content) = ''sha256__'' @ hexEncode (sha256 L content)"
    and "validName (refFilename (ingestID L content))"
    and "refIDFromFilename (refFilename (ingestID L content)) = ingestID L content"
proof -
  let ?h = "hexEncode (sha256 L content)"
  have chars: "set ?h \<subseteq> set ''0123456789abcdef''" by (rule hexEncode_chars)
  then have nocolon: "CHR '':'' \<notin> set ?h" by auto
  have pre: "refFilename ''sha256:'' = ''sha256__''" by code_simp
  show name: "refFilename (ingestID L content) = ''sha256__'' @ ?h"
    using nocolon by (simp add: ingestID_def refFilename_Cons refFilename_plain)
  have "length ?h = 64" using assms by (simp add: length_hexEncode)
  moreover have "CHR ''/'' \<notin> set ?h" "CHR 0x00 \<notin> set ?h" using chars by auto
  ultimately show "validName (refFilename (ingestID L content))"
    unfolding name validName_def by (auto)
  have "CHR ''_'' \<notin> set (ingestID L content)" using chars by (auto simp: ingestID_def)
  then have "\<not> sublist ''__'' (ingestID L content)" "\<not> sublist ''_:'' (ingestID L content)"
    using sublist_needs_underscore by blast+
  then show "refIDFromFilename (refFilename (ingestID L content)) = ingestID L content"
    by (rule ref_name_roundtrip)
qed

lemma Ingest_existing:
  "RefStore_Has (Refs r) (ingestID L content) \<Longrightarrow>
     Ingest L now cnow content format r = (Inr (ingestID L content, False), r)"
  by (simp add: Ingest_def)

lemma Set_fresh_dir:
  "RefStore_Set L [] nid c = Inr refs' \<Longrightarrow> Join (refFilename nid) = File n \<Longrightarrow>
     refs' = [(n, CIDToFilename L c)]"
  by (auto simp: RefStore_Set_def WritePath_def WriteFile_def CIDToFilename_def split: if_splits)

text \<open>
  Claim C8. For every content string, \<^verbatim>\<open>Ingest\<close> computes the ID \<^verbatim>\<open>sha256:\<close> followed
  by the lowercase hexadecimal digest of the content; where a ref for the ID exists it
  returns the ID and \<^verbatim>\<open>created = false\<close> and leaves the repository as it is;
  otherwise it creates the node of type \<^verbatim>\<open>Source\<close> with the metadata \<^verbatim>\<open>format\<close> and
  \<^verbatim>\<open>size_bytes\<close> and returns the ID and \<^verbatim>\<open>created = true\<close>; a second ingest of
  the same content returns the same ID and \<^verbatim>\<open>created = false\<close>, and a repository
  that had no ref before lists exactly that node. The hypotheses are those of the
  libraries (a digest of 32 bytes, an object name the directory can hold, the envelope
  reads back) and of the object store.
\<close>

theorem ingest_dedup:
  assumes fresh: "\<not> RefStore_Has (Refs r) (ingestID L content)"
      and digest: "length (sha256 L content) = 32"
      and name: "validName (objName L (nodeBytes L (sourceNode L content format now)))"
      and wf: "wfStore L (Store r)"
      and cf: "collisionFree L (insert (nodeBytes L (sourceNode L content format now))
                                 (snd ` set (Store r)))"
      and rb: "readsBackNode L (sourceNode L content format now)"
      and first: "Ingest L now cnow content format r = (res1, r1)"
      and second: "Ingest L now' cnow' content format' r1 = (res2, r2)"
  shows "ingestID L content = ''sha256:'' @ hexEncode (sha256 L content) \<and>
         res1 = Inr (ingestID L content, True) \<and>
         GetNode L r1 (ingestID L content) = Inr (sourceNode L content format now) \<and>
         Type (sourceNode L content format now) = ''Source'' \<and>
         Meta (sourceNode L content format now) =
           Some [(''format'', JString format), (''size_bytes'', JNumber (int (length content)))] \<and>
         res2 = Inr (ingestID L content, False) \<and> r2 = r1 \<and>
         (Refs r = [] \<longrightarrow> ListNodes L r1 0 = [ingestID L content]) \<and>
         (\<forall>r0. RefStore_Has (Refs r0) (ingestID L content) \<longrightarrow>
            Ingest L now cnow content format r0 = (Inr (ingestID L content, False), r0))"
proof -
  let ?id = "ingestID L content"
  let ?node = "sourceNode L content format now"
  have node: "?node = \<lparr> V = 1, ID = ?id, Type = ''Source'', Content = Some content,
       Meta = Some [(''format'', JString format), (''size_bytes'', JNumber (int (length content)))],
       Created = now, Modified = now, Prev = [], Deleted = False \<rparr>"
    by (simp add: sourceNode_def ingestID_def)
  note nm = ingest_name [OF digest]
  from putNode_succeeds [OF name nm(2)] obtain r0 where
    pn: "putNode L r ?id ?node = (None, r0)" by blast
  let ?r1 = "commit L cnow (''create '' @ ?id) (r0 \<lparr> Search := IndexNode L (Search r0) ?id ?node \<rparr>)"
  have cn: "CreateNode L now cnow ?id ''Source'' (Some content)
              (Some [(''format'', JString format), (''size_bytes'', JNumber (int (length content)))]) r
            = (Inr ?node, ?r1)"
    using pn by (simp add: CreateNode_def node [symmetric] Let_def)
  have ing: "Ingest L now cnow content format r = (Inr (?id, True), ?r1)"
    using fresh cn by (simp add: Ingest_def Let_def)
  with first have res1: "res1 = Inr (?id, True)" and r1: "r1 = ?r1" by simp_all
  note ok = putNode_ok [OF pn wf cf]
  have jn: "Join (refFilename ?id) = File (refFilename ?id)" using nm(2) by (rule Join_valid)
  have ref: "map_of (Refs r1) (refFilename ?id) = Some (objName L (nodeBytes L ?node))"
    using ok(1) r1 jn by (simp add: commit_keeps)
  have obj: "map_of (Store r1) (objName L (nodeBytes L ?node)) = Some (nodeBytes L ?node)"
    using ok(2) r1 by (simp add: commit_keeps)
  have env: "getNodeEnvelope L r1 ?id = Inr ?node"
    using jn ref obj rb by (rule getNodeEnvelope_read)
  then have get: "GetNode L r1 ?id = Inr ?node" by (simp add: GetNode_def sourceNode_def)
  have has: "RefStore_Has (Refs r1) ?id"
    using jn ref by (simp add: RefStore_Has_def StatPath_def Stat_def)
  from Ingest_existing [OF has] second have res2: "res2 = Inr (?id, False)" "r2 = r1" by simp_all
  have list: "ListNodes L r1 0 = [?id]" if "Refs r = []"
  proof -
    from pn that obtain c where "RefStore_Set L [] ?id c = Inr (Refs r0)"
      by (auto simp: putNode_def split: sum.splits prod.splits)
    then have "Refs r0 = [(refFilename ?id, CIDToFilename L c)]" using jn by (rule Set_fresh_dir)
    then have "RefStore_List (Refs r1) = [?id]"
      using r1 nm(3) by (simp add: commit_keeps RefStore_List_def ReadDir_def)
    then show ?thesis using env by (simp add: ListNodes_def Let_def sourceNode_def)
  qed
  show ?thesis using res1 get res2 list Ingest_existing
    by (simp add: ingestID_def sourceNode_def)
qed


theorem ingest_dedup_witness:
  "\<not> RefStore_Has (Refs (emptyRepo testDID)) (ingestID ingestLib ''dedup content'') \<and>
   length (sha256 ingestLib ''dedup content'') = 32 \<and>
   fst (Ingest ingestLib 1 2 ''dedup content'' ''text'' (emptyRepo testDID)) =
     Inr (ingestID ingestLib ''dedup content'', True) \<and>
   fst (Ingest ingestLib 3 4 ''dedup content'' ''text''
          (snd (Ingest ingestLib 1 2 ''dedup content'' ''text'' (emptyRepo testDID)))) =
     Inr (ingestID ingestLib ''dedup content'', False) \<and>
   ListNodes ingestLib (snd (Ingest ingestLib 1 2 ''dedup content'' ''text'' (emptyRepo testDID))) 0 =
     [ingestID ingestLib ''dedup content'']"
proof -
  note f = ingestLib_fields
  let ?r = "emptyRepo testDID"
  let ?I1 = "Ingest ingestLib 1 2 ''dedup content'' ''text'' ?r"
  let ?I2 = "Ingest ingestLib 3 4 ''dedup content'' ''text'' (snd ?I1)"
  let ?node = "sourceNode ingestLib ''dedup content'' ''text'' 1"
  have src: "?node = sampleSource"
    by (simp add: sourceNode_def sampleSource_def f standIn_fields)
  have "validName (refFilename (ingestID ingestLib ''dedup content''))"
    by (rule ingest_name) (simp add: f length_checksum)
  then have fresh: "\<not> RefStore_Has (Refs ?r) (ingestID ingestLib ''dedup content'')"
    by (simp add: RefStore_Has_def StatPath_def Stat_def emptyRepo_def Join_valid)
  have digest: "length (sha256 ingestLib ''dedup content'') = 32"
    by (simp add: f length_checksum)
  have name: "validName (objName ingestLib (nodeBytes ingestLib ?node))"
    using f(1,3) by (rule hexName_valid)
  have wf: "wfStore ingestLib (Store ?r)" by (simp add: wfStore_def emptyRepo_def)
  have cf: "collisionFree ingestLib (insert (nodeBytes ingestLib ?node) (snd ` set (Store ?r)))"
    by (simp add: collisionFree_def emptyRepo_def)
  have "textOK ingestLib c" for c using f(1,2) by (rule hexText_ok)
  then have rb: "readsBackNode ingestLib ?node"
    unfolding src by (simp add: readsBackNode_def f decodeAmong_def)
  have first: "?I1 = (fst ?I1, snd ?I1)" by simp
  have second: "?I2 = (fst ?I2, snd ?I2)" by simp
  have "Refs ?r = []" by (simp add: emptyRepo_def)
  with ingest_dedup [OF fresh digest name wf cf rb first second] fresh digest
  show ?thesis by simp
qed

section \<open>Commit chain\<close>





































end
